theory Spec2Isabelle
  imports Main "HOL-Library.Sublist"
begin

section \<open>JavaScript values used by the SDK\<close>

text \<open>
  The numbers the modelled functions return are integers (millisecond counts and
  lengths), except for two special values: \<open>NaN\<close>, which
  \<^verbatim>\<open>Math.max(0, undefined + w - now)\<close> yields when the oldest timestamp of an empty
  array is read, and \<open>Infinity\<close>, which \<^verbatim>\<open>getBucketInfo\<close> reports for a disabled
  manager. Strings are lists of code units.
\<close>

datatype number = Num int | NaN | Infinity

text \<open>\<^verbatim>\<open>x > 0\<close> on a JavaScript number: false for \<open>NaN\<close>.\<close>

fun gt0 :: "number \<Rightarrow> bool" where
  "gt0 (Num n) = (0 < n)"
| "gt0 NaN = False"
| "gt0 Infinity = True"

section \<open>rateLimit/RateLimitBucket.ts\<close>

text \<open>
  The constructor arguments and the private timestamp array. Limits and windows are
  integers, as in every route config, and so are the millisecond readings of
  \<^verbatim>\<open>Date.now()\<close>.
\<close>

record RateLimitBucket =
  bucketKey :: string
  limit :: int
  windowMs :: int
  exemptFromGlobal :: bool
  timestamps :: "int list"

text \<open>The constructor: the timestamp array starts empty.\<close>

definition newRateLimitBucket :: "string \<Rightarrow> int \<Rightarrow> int \<Rightarrow> bool \<Rightarrow> RateLimitBucket" where
  "newRateLimitBucket key lim win exempt =
     \<lparr>bucketKey = key, limit = lim, windowMs = win, exemptFromGlobal = exempt,
      timestamps = []\<rparr>"

text \<open>
  \<^verbatim>\<open>while (ts.length > 0 && ts[0] < cutoff) ts.shift()\<close>: entries leave at the front
  only, and the loop stops at the first entry that is not older than the cutoff.
\<close>

fun prune_loop :: "int \<Rightarrow> int list \<Rightarrow> int list" where
  "prune_loop cutoff [] = []"
| "prune_loop cutoff (t # ts) = (if t < cutoff then prune_loop cutoff ts else t # ts)"

text \<open>\<^verbatim>\<open>_prune()\<close>; \<open>now\<close> is the value \<^verbatim>\<open>Date.now()\<close> returns in it.\<close>

definition prune :: "int \<Rightarrow> RateLimitBucket \<Rightarrow> RateLimitBucket" where
  "prune now b = b\<lparr>timestamps := prune_loop (now - windowMs b) (timestamps b)\<rparr>"

text \<open>
  \<^verbatim>\<open>_tryAcquire()\<close> reads the clock twice: \<open>now1\<close> inside \<^verbatim>\<open>_prune()\<close>, \<open>now2\<close>
  when it records the request or computes the wait. The result is the returned number
  and the bucket after the call.
\<close>

definition tryAcquire :: "int \<Rightarrow> int \<Rightarrow> RateLimitBucket \<Rightarrow> number \<times> RateLimitBucket" where
  "tryAcquire now1 now2 b =
     (let b1 = prune now1 b in
      if int (length (timestamps b1)) < limit b1
      then (Num 0, b1\<lparr>timestamps := timestamps b1 @ [now2]\<rparr>)
      else (case timestamps b1 of
              [] \<Rightarrow> (NaN, b1)
            | oldest # _ \<Rightarrow> (Num (max 0 (oldest + windowMs b1 - now2)), b1)))"

text \<open>The body of \<^verbatim>\<open>getRemaining()\<close>.\<close>

definition remainingTask :: "int \<Rightarrow> RateLimitBucket \<Rightarrow> number \<times> RateLimitBucket" where
  "remainingTask now b =
     (let b1 = prune now b in (Num (limit b1 - int (length (timestamps b1))), b1))"

text \<open>The body of \<^verbatim>\<open>getResetTime()\<close>.\<close>

definition resetTimeTask :: "int \<Rightarrow> int \<Rightarrow> RateLimitBucket \<Rightarrow> number \<times> RateLimitBucket" where
  "resetTimeTask now1 now2 b =
     (let b1 = prune now1 b in
      case timestamps b1 of
        [] \<Rightarrow> (Num 0, b1)
      | oldest # _ \<Rightarrow> (Num (max 0 (oldest + windowMs b1 - now2)), b1))"

text \<open>The body of \<^verbatim>\<open>reset()\<close>: \<^verbatim>\<open>this._timestamps.length = 0\<close>.\<close>

definition resetTask :: "RateLimitBucket \<Rightarrow> RateLimitBucket" where
  "resetTask b = b\<lparr>timestamps := []\<rparr>"

text \<open>
  A run of consecutive \<^verbatim>\<open>acquire()\<close> calls on one bucket, each with its two clock
  readings; the results are listed in call order.
\<close>

fun acquires :: "(int \<times> int) list \<Rightarrow> RateLimitBucket \<Rightarrow> number list \<times> RateLimitBucket" where
  "acquires [] b = ([], b)"
| "acquires ((now1, now2) # rs) b =
     (let (w, b1) = tryAcquire now1 now2 b;
          (ws, b2) = acquires rs b1
      in (w # ws, b2))"


subsection \<open>The FIFO promise queue\<close>

text \<open>
  Every public method hands a closure to \<^verbatim>\<open>_enqueue\<close>, which chains it behind the
  promise of the closure enqueued before it. The chain is a first-in-first-out list of
  pending closures; the event loop runs the one at the head, to completion (the
  closures are synchronous), and resolves its caller's promise with the result.
\<close>

datatype task = TryAcquireTask | GetRemainingTask | GetResetTimeTask | ResetTask

datatype result = Returned number | Void

fun runTask :: "task \<Rightarrow> int \<Rightarrow> int \<Rightarrow> RateLimitBucket \<Rightarrow> result \<times> RateLimitBucket" where
  "runTask TryAcquireTask now1 now2 b = (let (w, b1) = tryAcquire now1 now2 b in (Returned w, b1))"
| "runTask GetRemainingTask now1 now2 b = (let (r, b1) = remainingTask now1 b in (Returned r, b1))"
| "runTask GetResetTimeTask now1 now2 b = (let (r, b1) = resetTimeTask now1 now2 b in (Returned r, b1))"
| "runTask ResetTask now1 now2 b = (Void, resetTask b)"

text \<open>
  A bucket together with its queue: the closures not yet run, each with the caller
  waiting for it, and the promises already resolved, in the order they resolved.
\<close>

record 'c QueuedBucket =
  bucketState :: RateLimitBucket
  pending :: "('c \<times> task) list"
  resolved :: "('c \<times> result) list"

definition newQueuedBucket :: "RateLimitBucket \<Rightarrow> 'c QueuedBucket" where
  "newQueuedBucket b = \<lparr>bucketState = b, pending = [], resolved = []\<rparr>"

definition enqueue :: "'c \<Rightarrow> task \<Rightarrow> 'c QueuedBucket \<Rightarrow> 'c QueuedBucket" where
  "enqueue c t q = q\<lparr>pending := pending q @ [(c, t)]\<rparr>"

definition acquire :: "'c \<Rightarrow> 'c QueuedBucket \<Rightarrow> 'c QueuedBucket" where
  "acquire c q = enqueue c TryAcquireTask q"

definition getRemaining :: "'c \<Rightarrow> 'c QueuedBucket \<Rightarrow> 'c QueuedBucket" where
  "getRemaining c q = enqueue c GetRemainingTask q"

definition getResetTime :: "'c \<Rightarrow> 'c QueuedBucket \<Rightarrow> 'c QueuedBucket" where
  "getResetTime c q = enqueue c GetResetTimeTask q"

definition reset :: "'c \<Rightarrow> 'c QueuedBucket \<Rightarrow> 'c QueuedBucket" where
  "reset c q = enqueue c ResetTask q"

text \<open>One turn of the event loop on the queue, with the clock readings of that turn.\<close>

definition turn :: "int \<Rightarrow> int \<Rightarrow> 'c QueuedBucket \<Rightarrow> 'c QueuedBucket" where
  "turn now1 now2 q =
     (case pending q of
        [] \<Rightarrow> q
      | (c, t) # rest \<Rightarrow>
          (let (r, b1) = runTask t now1 now2 (bucketState q)
           in q\<lparr>bucketState := b1, pending := rest, resolved := resolved q @ [(c, r)]\<rparr>))"

text \<open>
  A schedule is any interleaving of callers invoking \<^verbatim>\<open>acquire()\<close> and of turns of
  the event loop.
\<close>

datatype 'c event = CallAcquire 'c | Turn int int

fun step :: "'c event \<Rightarrow> 'c QueuedBucket \<Rightarrow> 'c QueuedBucket" where
  "step (CallAcquire c) q = acquire c q"
| "step (Turn now1 now2) q = turn now1 now2 q"

fun schedule :: "'c event list \<Rightarrow> 'c QueuedBucket \<Rightarrow> 'c QueuedBucket" where
  "schedule [] q = q"
| "schedule (e # es) q = schedule es (step e q)"

text \<open>The callers of a schedule, in the order they call.\<close>

fun callers :: "'c event list \<Rightarrow> 'c list" where
  "callers [] = []"
| "callers (CallAcquire c # es) = c # callers es"
| "callers (Turn now1 now2 # es) = callers es"

text \<open>The clock readings of a schedule.\<close>

fun readings :: "'c event list \<Rightarrow> int list" where
  "readings [] = []"
| "readings (CallAcquire c # es) = readings es"
| "readings (Turn now1 now2 # es) = now1 # now2 # readings es"

text \<open>The callers admitted: those whose promise resolved with a zero wait.\<close>

definition admitted :: "'c QueuedBucket \<Rightarrow> 'c list" where
  "admitted q = map fst (filter (\<lambda>cr. snd cr = Returned (Num 0)) (resolved q))"

definition deferred :: "'c QueuedBucket \<Rightarrow> 'c list" where
  "deferred q = map fst (filter (\<lambda>cr. snd cr \<noteq> Returned (Num 0)) (resolved q))"

section \<open>String primitives\<close>

text \<open>\<^verbatim>\<open>s.startsWith(p)\<close>, \<^verbatim>\<open>s.slice(n)\<close> for \<open>0 \<le> n\<close>, \<^verbatim>\<open>s.indexOf(p)\<close>, \<^verbatim>\<open>s.includes(p)\<close>.\<close>

definition startsWith :: "string \<Rightarrow> string \<Rightarrow> bool" where
  "startsWith s p = (take (length p) s = p)"

definition slice :: "string \<Rightarrow> nat \<Rightarrow> string" where
  "slice s n = drop n s"

fun indexOf :: "string \<Rightarrow> string \<Rightarrow> nat option" where
  "indexOf [] p = (if p = [] then Some 0 else None)"
| "indexOf (c # s) p =
     (if startsWith (c # s) p then Some 0 else map_option Suc (indexOf s p))"

definition includes_str :: "string \<Rightarrow> string \<Rightarrow> bool" where
  "includes_str s p = (indexOf s p \<noteq> None)"

text \<open>
  \<^verbatim>\<open>s.replace(p, r)\<close> with a string pattern replaces the first occurrence only, and
  expands the replacement \<open>r\<close> as a template: \<^verbatim>\<open>$$\<close> is a dollar sign, \<^verbatim>\<open>$&\<close> the
  matched text, \<^verbatim>\<open>$`\<close> the text before the match and \<^verbatim>\<open>$'\<close> the text after it.
  With a string pattern there are no capture groups, so every other use of \<^verbatim>\<open>$\<close> is
  literal.
\<close>

fun getSubstitution :: "string \<Rightarrow> string \<Rightarrow> string \<Rightarrow> string \<Rightarrow> string" where
  "getSubstitution matched pre post [] = []"
| "getSubstitution matched pre post [c] = [c]"
| "getSubstitution matched pre post (c # d # r) =
     (if c = CHR ''$'' \<and> d = CHR ''$'' then CHR ''$'' # getSubstitution matched pre post r
      else if c = CHR ''$'' \<and> d = CHR ''&'' then matched @ getSubstitution matched pre post r
      else if c = CHR ''$'' \<and> d = CHR 0x60 then pre @ getSubstitution matched pre post r
      else if c = CHR ''$'' \<and> d = CHR 0x27 then post @ getSubstitution matched pre post r
      else c # getSubstitution matched pre post (d # r))"

definition replace :: "string \<Rightarrow> string \<Rightarrow> string \<Rightarrow> string" where
  "replace s p r =
     (case indexOf s p of
        None \<Rightarrow> s
      | Some pos \<Rightarrow>
          (let pre = take pos s; post = drop (pos + length p) s
           in pre @ getSubstitution p pre post r @ post))"

text \<open>The truthiness of an optional string: absent and empty are both falsy.\<close>

fun truthy :: "string option \<Rightarrow> bool" where
  "truthy None = False"
| "truthy (Some s) = (s \<noteq> [])"

section \<open>rateLimit/RateLimitConfig.ts and the RateLimitManager\<close>

record RateLimitConfig =
  bucket :: string
  limit_cfg :: int
  windowMs_cfg :: int
  exemptFromGlobal_cfg :: "bool option"

record BucketParams =
  channelId :: "string option"
  guildId :: "string option"
  userId :: "string option"
  targetId :: "string option"
  webhookId :: "string option"
  inviteCode :: "string option"

text \<open>The default argument \<^verbatim>\<open>params = {}\<close>.\<close>

definition noParams :: BucketParams where
  "noParams = \<lparr>channelId = None, guildId = None, userId = None, targetId = None,
                webhookId = None, inviteCode = None\<rparr>"

text \<open>
  The manager: the \<^verbatim>\<open>_enabled\<close> flag and the \<^verbatim>\<open>_buckets\<close> table from resolved
  keys to buckets.
\<close>

record RateLimitManager =
  enabled :: bool
  buckets :: "string \<rightharpoonup> RateLimitBucket"

definition newRateLimitManager :: "bool \<Rightarrow> RateLimitManager" where
  "newRateLimitManager en = \<lparr>enabled = en, buckets = Map.empty\<rparr>"

text \<open>The template literal \<^verbatim>\<open>`::${id}`\<close>.\<close>

fun idTemplate :: "string option \<Rightarrow> string" where
  "idTemplate (Some v) = ''::'' @ v"
| "idTemplate None = ''::undefined''"

text \<open>
  The key resolution at the head of \<^verbatim>\<open>getBucket\<close>: six guarded replacements, one
  after the other, each on the key the ones before it left.
\<close>

definition resolveKey :: "RateLimitConfig \<Rightarrow> BucketParams \<Rightarrow> string" where
  "resolveKey config params =
     (let key = bucket config;
          key = (if truthy (channelId params) \<and> includes_str key ''::channel_id''
                 then replace key ''::channel_id'' (idTemplate (channelId params)) else key);
          key = (if truthy (guildId params) \<and> includes_str key ''::guild_id''
                 then replace key ''::guild_id'' (idTemplate (guildId params)) else key);
          key = (if truthy (userId params) \<and> includes_str key ''::user_id''
                 then replace key ''::user_id'' (idTemplate (userId params)) else key);
          key = (if truthy (targetId params) \<and> includes_str key ''::target_id''
                 then replace key ''::target_id'' (idTemplate (targetId params)) else key);
          key = (if truthy (webhookId params) \<and> includes_str key ''::webhook_id''
                 then replace key ''::webhook_id'' (idTemplate (webhookId params)) else key);
          key = (if truthy (inviteCode params) \<and> includes_str key ''::invite_code''
                 then replace key ''::invite_code'' (idTemplate (inviteCode params)) else key)
      in key)"

text \<open>
  \<^verbatim>\<open>getBucket\<close> returns the bucket stored under the resolved key, creating it first
  when there is none, or \<^verbatim>\<open>null\<close> when the manager is disabled.
\<close>

definition getBucket ::
  "RateLimitManager \<Rightarrow> RateLimitConfig \<Rightarrow> BucketParams
     \<Rightarrow> RateLimitBucket option \<times> RateLimitManager" where
  "getBucket m config params =
     (if \<not> enabled m then (None, m)
      else
        (let key = resolveKey config params in
         case buckets m key of
           Some b \<Rightarrow> (Some b, m)
         | None \<Rightarrow>
             (let b = newRateLimitBucket key (limit_cfg config) (windowMs_cfg config)
                        (case exemptFromGlobal_cfg config of Some e \<Rightarrow> e | None \<Rightarrow> False)
              in (Some b, m\<lparr>buckets := (buckets m)(key \<mapsto> b)\<rparr>))))"

text \<open>
  What \<^verbatim>\<open>waitForRateLimit\<close> does, in order: calls to \<^verbatim>\<open>bucket.acquire()\<close>, warnings
  written to the logger and calls to \<^verbatim>\<open>sleep\<close>, each with the wait it was given.
\<close>

datatype effect = Acquire | Warn number | Sleep number

text \<open>
  \<^verbatim>\<open>waitForRateLimit\<close>. \<open>r1\<close> and \<open>r2\<close> are the clock readings of the first and of
  the second acquire; \<open>during\<close> is what other callers did to the bucket while this one
  slept. The result is the list of effects and the bucket afterwards.
\<close>

definition waitForRateLimit ::
  "RateLimitManager \<Rightarrow> RateLimitBucket option \<Rightarrow> int \<times> int
     \<Rightarrow> (RateLimitBucket \<Rightarrow> RateLimitBucket) \<Rightarrow> int \<times> int
     \<Rightarrow> effect list \<times> RateLimitBucket option" where
  "waitForRateLimit m bopt r1 during r2 =
     (if \<not> enabled m then ([], bopt)
      else case bopt of
        None \<Rightarrow> ([], None)
      | Some b \<Rightarrow>
            (let (waitMs, b1) = tryAcquire (fst r1) (snd r1) b in
             if gt0 waitMs then
               (let (waitMs2, b2) = tryAcquire (fst r2) (snd r2) (during b1) in
                if gt0 waitMs2
                then ([Acquire, Warn waitMs, Sleep waitMs, Acquire, Warn waitMs2, Sleep waitMs2],
                      Some b2)
                else ([Acquire, Warn waitMs, Sleep waitMs, Acquire], Some b2))
             else ([Acquire], Some b1)))"

record BucketInfo =
  remaining :: number
  resetMs :: number

text \<open>
  \<^verbatim>\<open>getBucketInfo\<close>; \<open>now\<close> is the reading of \<^verbatim>\<open>getRemaining()\<close>, \<open>r\<close> the two
  readings of \<^verbatim>\<open>getResetTime()\<close>. The list counts the calls made on the bucket.
\<close>

definition getBucketInfo ::
  "RateLimitManager \<Rightarrow> RateLimitBucket option \<Rightarrow> int \<Rightarrow> int \<times> int
     \<Rightarrow> BucketInfo \<times> task list \<times> RateLimitBucket option" where
  "getBucketInfo m bopt now r =
     (if \<not> enabled m then (\<lparr>remaining = Infinity, resetMs = Num 0\<rparr>, [], bopt)
      else case bopt of
        None \<Rightarrow> (\<lparr>remaining = Infinity, resetMs = Num 0\<rparr>, [], None)
      | Some b \<Rightarrow>
            (let (rem, b1) = remainingTask now b;
                 (rst, b2) = resetTimeTask (fst r) (snd r) b1
             in (\<lparr>remaining = rem, resetMs = rst\<rparr>, [GetRemainingTask, GetResetTimeTask],
                 Some b2)))"

section \<open>gateway/closeCodes.ts\<close>

datatype FluxorCloseCode =
  UnknownError | UnknownOpCode | DecodeError | NotAuthenticated | AuthenticationFailed
  | AlreadyAuthenticated | InvalidSequence | RateLimited | SessionTimedOut | InvalidShard
  | ShardingRequired | InvalidApiVersion | InvalidIntents | DisallowedIntents

fun closeCode :: "FluxorCloseCode \<Rightarrow> int" where
  "closeCode UnknownError = 4000"
| "closeCode UnknownOpCode = 4001"
| "closeCode DecodeError = 4002"
| "closeCode NotAuthenticated = 4003"
| "closeCode AuthenticationFailed = 4004"
| "closeCode AlreadyAuthenticated = 4005"
| "closeCode InvalidSequence = 4007"
| "closeCode RateLimited = 4008"
| "closeCode SessionTimedOut = 4009"
| "closeCode InvalidShard = 4010"
| "closeCode ShardingRequired = 4011"
| "closeCode InvalidApiVersion = 4012"
| "closeCode InvalidIntents = 4013"
| "closeCode DisallowedIntents = 4014"

definition shouldReconnect :: "int \<Rightarrow> bool" where
  "shouldReconnect code =
     (if code = closeCode AuthenticationFailed then False
      else if code = closeCode InvalidShard then False
      else if code = closeCode ShardingRequired then False
      else if code = closeCode InvalidApiVersion then False
      else if code = closeCode InvalidIntents then False
      else if code = closeCode DisallowedIntents then False
      else True)"

section \<open>util/token.ts\<close>

definition getGatewayToken :: "string \<Rightarrow> string" where
  "getGatewayToken token = (if startsWith token ''Bot '' then slice token 4 else token)"

section \<open>builders/EmbedBuilder.ts\<close>

text \<open>
  The exceptions the builders throw; the message texts are left out. A
  \<^verbatim>\<open>TypeError\<close> is thrown for a \<^verbatim>\<open>null\<close> or \<^verbatim>\<open>undefined\<close> title or description,
  which only a caller outside the type system can pass.
\<close>

datatype error = RangeError | TypeError

definition MaxTitleLength :: nat where "MaxTitleLength = 256"
definition MaxDescriptionLength :: nat where "MaxDescriptionLength = 4096"
definition MaxFieldCount :: nat where "MaxFieldCount = 25"
definition MaxFieldNameLength :: nat where "MaxFieldNameLength = 256"
definition MaxFieldValueLength :: nat where "MaxFieldValueLength = 1024"
definition MaxFooterTextLength :: nat where "MaxFooterTextLength = 2048"
definition MaxAuthorNameLength :: nat where "MaxAuthorNameLength = 256"
definition MaxEmbedLength :: nat where "MaxEmbedLength = 6000"

text \<open>
  The sub-builders hold the fields of the object they build, and their
  \<^verbatim>\<open>build()\<close> copies them, so one record stands for both.
\<close>

record EmbedAuthor =
  author_name :: string
  author_url :: "string option"
  author_icon_url :: "string option"

record EmbedFooter =
  footer_text :: string
  footer_icon_url :: "string option"

record EmbedField =
  field_name :: string
  field_value :: string
  field_inline :: "bool option"

record EmbedMedia =
  media_url :: "string option"

definition newEmbedAuthorBuilder :: "string \<Rightarrow> error + EmbedAuthor" where
  "newEmbedAuthorBuilder name =
     (if length name > MaxAuthorNameLength then Inl RangeError
      else Inr \<lparr>author_name = name, author_url = None, author_icon_url = None\<rparr>)"

definition newEmbedFooterBuilder :: "string \<Rightarrow> error + EmbedFooter" where
  "newEmbedFooterBuilder text =
     (if length text > MaxFooterTextLength then Inl RangeError
      else Inr \<lparr>footer_text = text, footer_icon_url = None\<rparr>)"

definition newEmbedFieldBuilder :: "string \<Rightarrow> string \<Rightarrow> bool option \<Rightarrow> error + EmbedField" where
  "newEmbedFieldBuilder name val inl =
     (if length name > MaxFieldNameLength then Inl RangeError
      else if length val > MaxFieldValueLength then Inl RangeError
      else Inr \<lparr>field_name = name, field_value = val, field_inline = inl\<rparr>)"

record EmbedBuilder =
  b_title :: "string option"
  b_description :: "string option"
  b_url :: "string option"
  b_timestamp :: "string option"
  b_color :: "int option"
  b_footer :: "EmbedFooter option"
  b_image :: "EmbedMedia option"
  b_thumbnail :: "EmbedMedia option"
  b_author :: "EmbedAuthor option"
  b_fields :: "EmbedField list"

definition newEmbedBuilder :: EmbedBuilder where
  "newEmbedBuilder =
     \<lparr>b_title = None, b_description = None, b_url = None, b_timestamp = None,
      b_color = None, b_footer = None, b_image = None, b_thumbnail = None,
      b_author = None, b_fields = []\<rparr>"

text \<open>The argument of \<open>setTitle\<close> and \<open>setDescription\<close> is \<open>None\<close> for \<^verbatim>\<open>null\<close>.\<close>

definition setTitle :: "string option \<Rightarrow> EmbedBuilder \<Rightarrow> error + EmbedBuilder" where
  "setTitle title b =
     (case title of
        None \<Rightarrow> Inl TypeError
      | Some t \<Rightarrow>
          if length t > MaxTitleLength then Inl RangeError
          else Inr (b\<lparr>b_title := Some t\<rparr>))"

definition setDescription :: "string option \<Rightarrow> EmbedBuilder \<Rightarrow> error + EmbedBuilder" where
  "setDescription description b =
     (case description of
        None \<Rightarrow> Inl TypeError
      | Some d \<Rightarrow>
          if length d > MaxDescriptionLength then Inl RangeError
          else Inr (b\<lparr>b_description := Some d\<rparr>))"

definition setUrl :: "string \<Rightarrow> EmbedBuilder \<Rightarrow> EmbedBuilder" where
  "setUrl url b = b\<lparr>b_url := Some url\<rparr>"

definition setColor :: "int \<Rightarrow> EmbedBuilder \<Rightarrow> EmbedBuilder" where
  "setColor color b = b\<lparr>b_color := Some color\<rparr>"

definition setImage :: "string \<Rightarrow> EmbedBuilder \<Rightarrow> EmbedBuilder" where
  "setImage url b = b\<lparr>b_image := Some \<lparr>media_url = Some url\<rparr>\<rparr>"

definition setThumbnail :: "string \<Rightarrow> EmbedBuilder \<Rightarrow> EmbedBuilder" where
  "setThumbnail url b = b\<lparr>b_thumbnail := Some \<lparr>media_url = Some url\<rparr>\<rparr>"

definition setFooter :: "string \<Rightarrow> string option \<Rightarrow> EmbedBuilder \<Rightarrow> error + EmbedBuilder" where
  "setFooter text iconUrl b =
     (case newEmbedFooterBuilder text of
        Inl e \<Rightarrow> Inl e
      | Inr fb \<Rightarrow>
          (let fb = (if truthy iconUrl then fb\<lparr>footer_icon_url := iconUrl\<rparr> else fb)
           in Inr (b\<lparr>b_footer := Some fb\<rparr>)))"

definition setAuthor ::
  "string \<Rightarrow> string option \<Rightarrow> string option \<Rightarrow> EmbedBuilder \<Rightarrow> error + EmbedBuilder" where
  "setAuthor name url iconUrl b =
     (case newEmbedAuthorBuilder name of
        Inl e \<Rightarrow> Inl e
      | Inr ab \<Rightarrow>
          (let ab = (if truthy url then ab\<lparr>author_url := url\<rparr> else ab);
               ab = (if truthy iconUrl then ab\<lparr>author_icon_url := iconUrl\<rparr> else ab)
           in Inr (b\<lparr>b_author := Some ab\<rparr>)))"

definition addField ::
  "string \<Rightarrow> string \<Rightarrow> bool option \<Rightarrow> EmbedBuilder \<Rightarrow> error + EmbedBuilder" where
  "addField name val inl b =
     (if length (b_fields b) \<ge> MaxFieldCount then Inl RangeError
      else case newEmbedFieldBuilder name val inl of
        Inl e \<Rightarrow> Inl e
      | Inr fb \<Rightarrow> Inr (b\<lparr>b_fields := b_fields b @ [fb]\<rparr>))"

text \<open>
  \<^verbatim>\<open>_totalLength()\<close>: the title and the description count when they are truthy, the
  footer and the author when they are set, and every field.
\<close>

definition totalLength :: "EmbedBuilder \<Rightarrow> nat" where
  "totalLength b =
     (let total = 0;
          total = (case b_title b of
                     Some t \<Rightarrow> if t \<noteq> [] then total + length t else total
                   | None \<Rightarrow> total);
          total = (case b_description b of
                     Some d \<Rightarrow> if d \<noteq> [] then total + length d else total
                   | None \<Rightarrow> total);
          total = (case b_footer b of Some f \<Rightarrow> total + length (footer_text f) | None \<Rightarrow> total);
          total = (case b_author b of Some a \<Rightarrow> total + length (author_name a) | None \<Rightarrow> total)
      in foldl (\<lambda>t f. t + (length (field_name f) + length (field_value f))) total (b_fields b))"

record Embed =
  e_title :: "string option"
  e_description :: "string option"
  e_url :: "string option"
  e_timestamp :: "string option"
  e_color :: "int option"
  e_footer :: "EmbedFooter option"
  e_image :: "EmbedMedia option"
  e_thumbnail :: "EmbedMedia option"
  e_author :: "EmbedAuthor option"
  e_fields :: "EmbedField list option"

definition build :: "EmbedBuilder \<Rightarrow> error + Embed" where
  "build b =
     (let totalLen = totalLength b in
      if totalLen > MaxEmbedLength then Inl RangeError
      else Inr \<lparr>e_title = b_title b, e_description = b_description b, e_url = b_url b,
                e_timestamp = b_timestamp b, e_color = b_color b, e_footer = b_footer b,
                e_image = b_image b, e_thumbnail = b_thumbnail b, e_author = b_author b,
                e_fields = (if length (b_fields b) > 0 then Some (b_fields b) else None)\<rparr>)"

section \<open>Definitions used to state the properties\<close>

text \<open>One of the six guarded replacements of \<open>resolveKey\<close>.\<close>

definition substitute :: "string \<Rightarrow> string option \<Rightarrow> string \<Rightarrow> string" where
  "substitute placeholder param key =
     (if truthy param \<and> includes_str key placeholder
      then replace key placeholder (idTemplate param) else key)"

text \<open>The calls to \<^verbatim>\<open>acquire()\<close> and to \<^verbatim>\<open>sleep\<close> among the effects.\<close>

fun isAcquire :: "effect \<Rightarrow> bool" where
  "isAcquire Acquire = True"
| "isAcquire (Warn w) = False"
| "isAcquire (Sleep w) = False"

fun isSleep :: "effect \<Rightarrow> bool" where
  "isSleep Acquire = False"
| "isSleep (Warn w) = False"
| "isSleep (Sleep w) = True"

text \<open>
  The total the embed limit is about, in the words of the specification: the
  characters of the title, the description, the footer text, the author name and of
  every field name and field value.
\<close>

definition optLength :: "string option \<Rightarrow> nat" where
  "optLength s = (case s of None \<Rightarrow> 0 | Some t \<Rightarrow> length t)"

definition embedCharacters :: "EmbedBuilder \<Rightarrow> nat" where
  "embedCharacters b =
     optLength (b_title b) + optLength (b_description b)
     + optLength (map_option footer_text (b_footer b))
     + optLength (map_option author_name (b_author b))
     + sum_list (map (\<lambda>f. length (field_name f) + length (field_value f)) (b_fields b))"

text \<open>
  The state a bucket is in when the clock never runs backwards: the recorded
  timestamps are in the order they were recorded, and none is later than the last
  clock reading \<open>now\<close>.
\<close>

definition clockOrdered :: "int \<Rightarrow> RateLimitBucket \<Rightarrow> bool" where
  "clockOrdered now b = (sorted (timestamps b) \<and> (\<forall>t\<in>set (timestamps b). t \<le> now))"

text \<open>
  The bound on the number of recorded timestamps; a bucket whose limit is negative
  records none.
\<close>

definition withinLimit :: "RateLimitBucket \<Rightarrow> bool" where
  "withinLimit b = (int (length (timestamps b)) \<le> max 0 (limit b))"

definition bucketInvariant :: "int \<Rightarrow> RateLimitBucket \<Rightarrow> bool" where
  "bucketInvariant now b = (clockOrdered now b \<and> withinLimit b)"

text \<open>No recorded timestamp is older than the cutoff.\<close>

definition noneOlder :: "int \<Rightarrow> RateLimitBucket \<Rightarrow> bool" where
  "noneOlder cutoff b = (\<forall>t\<in>set (timestamps b). cutoff \<le> t)"

text \<open>A resolved promise that carries a zero wait.\<close>

definition isZero :: "'c \<times> result \<Rightarrow> bool" where
  "isZero cr = (snd cr = Returned (Num 0))"

text \<open>
  What holds of a bucket and its queue while every clock reading lies in one window
  \<open>[t0, t0 + W)\<close>: nothing is pruned, the first \<open>L\<close> promises resolved carry a zero
  wait and the later ones do not, and one timestamp is recorded per zero wait.
\<close>

definition windowInv :: "int \<Rightarrow> int \<Rightarrow> int \<Rightarrow> 'c QueuedBucket \<Rightarrow> bool" where
  "windowInv t0 L W q =
     (limit (bucketState q) = L \<and> windowMs (bucketState q) = W
      \<and> (\<forall>x\<in>set (timestamps (bucketState q)). t0 \<le> x)
      \<and> length (timestamps (bucketState q)) = min (length (resolved q)) (nat L)
      \<and> filter isZero (resolved q) = take (nat L) (resolved q)
      \<and> (\<forall>ct\<in>set (pending q). snd ct = TryAcquireTask))"

text \<open>
  IDs made of decimal digits only, and IDs without a dollar sign (the character
  \<^verbatim>\<open>replace\<close> expands in its replacement text).
\<close>

definition isDigit :: "char \<Rightarrow> bool" where
  "isDigit c = (c \<in> set ''0123456789'')"

definition numericId :: "string option \<Rightarrow> bool" where
  "numericId param = (case param of None \<Rightarrow> True | Some v \<Rightarrow> \<forall>c\<in>set v. isDigit c)"

definition dollarFree :: "string option \<Rightarrow> bool" where
  "dollarFree param = (case param of None \<Rightarrow> True | Some v \<Rightarrow> CHR ''$'' \<notin> set v)"

text \<open>
  The key resolution in the words of the specification: each placeholder that occurs in
  the template, and whose ID is supplied and not empty, is replaced in the key, at its
  first occurrence, by \<^verbatim>\<open>::\<close> and the ID, literally; every other placeholder stays.
\<close>

definition spec_replaceFirst :: "string \<Rightarrow> string \<Rightarrow> string \<Rightarrow> string" where
  "spec_replaceFirst key placeholder txt =
     (case indexOf key placeholder of
        None \<Rightarrow> key
      | Some pos \<Rightarrow> take pos key @ txt @ drop (pos + length placeholder) key)"

definition spec_substitute :: "string \<Rightarrow> string \<Rightarrow> string option \<Rightarrow> string \<Rightarrow> string" where
  "spec_substitute template placeholder param key =
     (case param of
        None \<Rightarrow> key
      | Some v \<Rightarrow>
          if v \<noteq> [] \<and> includes_str template placeholder
          then spec_replaceFirst key placeholder (''::'' @ v) else key)"

definition spec_resolveKey :: "string \<Rightarrow> BucketParams \<Rightarrow> string" where
  "spec_resolveKey template params =
     spec_substitute template ''::invite_code'' (inviteCode params)
      (spec_substitute template ''::webhook_id'' (webhookId params)
        (spec_substitute template ''::target_id'' (targetId params)
          (spec_substitute template ''::user_id'' (userId params)
            (spec_substitute template ''::guild_id'' (guildId params)
              (spec_substitute template ''::channel_id'' (channelId params) template)))))"

text \<open>
  The name of a placeholder, after its two colons: not empty, and with neither a colon
  nor a digit in it.
\<close>

definition placeholderWord :: "string \<Rightarrow> bool" where
  "placeholderWord w = (w \<noteq> [] \<and> (\<forall>c\<in>set w. c \<noteq> CHR '':'' \<and> \<not> isDigit c))"

section \<open>Helper lemmas\<close>

lemma startsWith_prefix: "startsWith s p = prefix p s"
  unfolding startsWith_def
  by (metis append_eq_conv_conj prefix_def append_take_drop_id)

lemma resolveKey_substitute:
  "resolveKey config params =
     substitute ''::invite_code'' (inviteCode params)
      (substitute ''::webhook_id'' (webhookId params)
        (substitute ''::target_id'' (targetId params)
          (substitute ''::user_id'' (userId params)
            (substitute ''::guild_id'' (guildId params)
              (substitute ''::channel_id'' (channelId params) (bucket config))))))"
  unfolding resolveKey_def substitute_def Let_def by (rule refl)

lemma substitute_empty [simp]: "substitute ph (Some []) key = key"
  by (simp add: substitute_def)

lemma substitute_None [simp]: "substitute ph None key = key"
  by (simp add: substitute_def)

lemma getBucket_cong_key:
  "resolveKey config p = resolveKey config p' \<Longrightarrow> getBucket m config p = getBucket m config p'"
  by (simp add: getBucket_def)

section \<open>Close codes\<close>

text \<open>
  Claim C4. \<open>shouldReconnect\<close> returns false exactly for the six close codes 4004
  (authentication failed), 4010 (invalid shard), 4011 (sharding required), 4012
  (invalid API version), 4013 (invalid capabilities) and 4014 (disallowed
  capabilities), and true for every other integer code: the other codes of the table
  (4000 to 4003, 4005, 4007 to 4009) and codes the table does not list, such as 4006,
  1000 and 1006.
\<close>

theorem shouldReconnect_codes:
  "shouldReconnect code = (code \<notin> {4004, 4010, 4011, 4012, 4013, 4014})
   \<and> closeCode AuthenticationFailed = 4004 \<and> closeCode InvalidShard = 4010
   \<and> closeCode ShardingRequired = 4011 \<and> closeCode InvalidApiVersion = 4012
   \<and> closeCode InvalidIntents = 4013 \<and> closeCode DisallowedIntents = 4014
   \<and> shouldReconnect 4000 \<and> shouldReconnect 4001 \<and> shouldReconnect 4002
   \<and> shouldReconnect 4003 \<and> shouldReconnect 4005 \<and> shouldReconnect 4007
   \<and> shouldReconnect 4008 \<and> shouldReconnect 4009 \<and> shouldReconnect 4006
   \<and> shouldReconnect 1000 \<and> shouldReconnect 1006"
  by (simp add: shouldReconnect_def)

section \<open>Gateway token\<close>

text \<open>
  Claim C7. For a token that begins with \<^verbatim>\<open>"Bot "\<close>, \<open>getGatewayToken\<close> returns what
  follows that four-character prefix; every other token, a user token beginning with
  \<^verbatim>\<open>"flx_"\<close> among them, is returned unchanged.
\<close>

theorem getGatewayToken_strips_prefix:
  "getGatewayToken (''Bot '' @ r) = r
   \<and> (\<not> prefix ''Bot '' token \<longrightarrow> getGatewayToken token = token)
   \<and> getGatewayToken (''flx_'' @ r) = ''flx_'' @ r"
  by (simp add: getGatewayToken_def startsWith_prefix slice_def)

theorem getGatewayToken_strips_prefix_witness:
  "getGatewayToken ''Bot abc.def'' = ''abc.def''
   \<and> \<not> prefix ''Bot '' ''flx_abc'' \<and> getGatewayToken ''flx_abc'' = ''flx_abc''
   \<and> \<not> prefix ''Bot '' ''Bot'' \<and> getGatewayToken ''Bot'' = ''Bot''"
  using getGatewayToken_strips_prefix [of "''abc.def''" "''flx_abc''"]
        getGatewayToken_strips_prefix [of "''abc''" "''Bot''"]
  by simp

section \<open>Bucket keys\<close>

text \<open>
  Claim C10. An empty string supplied as a dynamic ID is treated as an absent one: the
  resolved key, and with it the bucket \<open>getBucket\<close> returns and the table it leaves,
  are the same as when the ID is omitted, for each of the six IDs. With no other ID
  supplied the key is the unresolved template.
\<close>

theorem empty_id_is_absent:
  "resolveKey config (params\<lparr>channelId := Some ''''\<rparr>) = resolveKey config (params\<lparr>channelId := None\<rparr>)
   \<and> resolveKey config (params\<lparr>guildId := Some ''''\<rparr>) = resolveKey config (params\<lparr>guildId := None\<rparr>)
   \<and> resolveKey config (params\<lparr>userId := Some ''''\<rparr>) = resolveKey config (params\<lparr>userId := None\<rparr>)
   \<and> resolveKey config (params\<lparr>targetId := Some ''''\<rparr>) = resolveKey config (params\<lparr>targetId := None\<rparr>)
   \<and> resolveKey config (params\<lparr>webhookId := Some ''''\<rparr>) = resolveKey config (params\<lparr>webhookId := None\<rparr>)
   \<and> resolveKey config (params\<lparr>inviteCode := Some ''''\<rparr>) = resolveKey config (params\<lparr>inviteCode := None\<rparr>)
   \<and> getBucket m config (params\<lparr>channelId := Some ''''\<rparr>) = getBucket m config (params\<lparr>channelId := None\<rparr>)
   \<and> getBucket m config (params\<lparr>guildId := Some ''''\<rparr>) = getBucket m config (params\<lparr>guildId := None\<rparr>)
   \<and> getBucket m config (params\<lparr>userId := Some ''''\<rparr>) = getBucket m config (params\<lparr>userId := None\<rparr>)
   \<and> getBucket m config (params\<lparr>targetId := Some ''''\<rparr>) = getBucket m config (params\<lparr>targetId := None\<rparr>)
   \<and> getBucket m config (params\<lparr>webhookId := Some ''''\<rparr>) = getBucket m config (params\<lparr>webhookId := None\<rparr>)
   \<and> getBucket m config (params\<lparr>inviteCode := Some ''''\<rparr>) = getBucket m config (params\<lparr>inviteCode := None\<rparr>)
   \<and> resolveKey config (noParams\<lparr>channelId := Some ''''\<rparr>) = bucket config"
proof -
  have k: "resolveKey config (params\<lparr>channelId := Some ''''\<rparr>) = resolveKey config (params\<lparr>channelId := None\<rparr>)"
    "resolveKey config (params\<lparr>guildId := Some ''''\<rparr>) = resolveKey config (params\<lparr>guildId := None\<rparr>)"
    "resolveKey config (params\<lparr>userId := Some ''''\<rparr>) = resolveKey config (params\<lparr>userId := None\<rparr>)"
    "resolveKey config (params\<lparr>targetId := Some ''''\<rparr>) = resolveKey config (params\<lparr>targetId := None\<rparr>)"
    "resolveKey config (params\<lparr>webhookId := Some ''''\<rparr>) = resolveKey config (params\<lparr>webhookId := None\<rparr>)"
    "resolveKey config (params\<lparr>inviteCode := Some ''''\<rparr>) = resolveKey config (params\<lparr>inviteCode := None\<rparr>)"
    by (simp_all add: resolveKey_substitute)
  have n: "resolveKey config (noParams\<lparr>channelId := Some ''''\<rparr>) = bucket config"
    by (simp add: resolveKey_substitute noParams_def)
  show ?thesis
    using k n by (intro conjI getBucket_cong_key) assumption+
qed

section \<open>The disabled manager\<close>

text \<open>
  Claim C9. A manager constructed with \<open>enabled = false\<close> never delays and never counts
  a request: for every config and params \<open>getBucket\<close> returns \<^verbatim>\<open>null\<close> and leaves the
  table as it was, \<open>waitForRateLimit\<close> returns with no call to \<^verbatim>\<open>acquire()\<close> and no
  sleep, and \<open>getBucketInfo\<close> reports \<open>remaining = Infinity\<close> and \<open>resetMs = 0\<close> without
  touching the bucket.
\<close>

theorem disabled_manager_never_delays:
  assumes "\<not> enabled m"
  shows "getBucket m config params = (None, m)
    \<and> waitForRateLimit m bopt r1 during r2 = ([], bopt)
    \<and> getBucketInfo m bopt now r = (\<lparr>remaining = Infinity, resetMs = Num 0\<rparr>, [], bopt)"
  using assms by (simp add: getBucket_def waitForRateLimit_def getBucketInfo_def)

theorem disabled_manager_never_delays_witness:
  "\<not> enabled (newRateLimitManager False)
   \<and> getBucket (newRateLimitManager False)
        \<lparr>bucket = ''channels::channel_id::messages::send'', limit_cfg = 5,
          windowMs_cfg = 5000, exemptFromGlobal_cfg = None\<rparr>
        (noParams\<lparr>channelId := Some ''123''\<rparr>) = (None, newRateLimitManager False)
   \<and> waitForRateLimit (newRateLimitManager False)
        (Some (newRateLimitBucket ''k'' 0 1000 False)) (0, 0) id (1, 1)
       = ([], Some (newRateLimitBucket ''k'' 0 1000 False))
   \<and> getBucketInfo (newRateLimitManager False)
        (Some (newRateLimitBucket ''k'' 0 1000 False)) 0 (0, 0)
       = (\<lparr>remaining = Infinity, resetMs = Num 0\<rparr>, [],
          Some (newRateLimitBucket ''k'' 0 1000 False))"
  using disabled_manager_never_delays [of "newRateLimitManager False"]
  by (simp add: newRateLimitManager_def)

section \<open>The bounded retry of the manager\<close>

text \<open>
  Claim C6. For every bucket, whatever the clock reads and whatever other callers do to
  the bucket in between, \<open>waitForRateLimit\<close> calls \<^verbatim>\<open>acquire()\<close> at most twice and
  sleeps at most twice, only after an acquire and only for a positive wait; it ends
  after at most six effects. Its four runs are these. Disabled, or with no bucket, it
  does nothing. When the first acquire returns no positive wait, it returns after that
  one acquire, without sleeping. When the first wait is positive it warns, sleeps that
  long and acquires a second time; if the second acquire returns no positive wait it
  returns then, after one sleep. When the second acquire still returns a positive wait,
  it warns and sleeps once more and returns regardless: the effects are then acquire,
  warning, sleep, acquire, warning, sleep. There is no loop on local admission control.
\<close>

theorem waitForRateLimit_bounded:
  "length (filter isAcquire (fst (waitForRateLimit m bopt r1 during r2))) \<le> 2
   \<and> length (filter isSleep (fst (waitForRateLimit m bopt r1 during r2)))
        \<le> length (filter isAcquire (fst (waitForRateLimit m bopt r1 during r2)))
   \<and> length (fst (waitForRateLimit m bopt r1 during r2)) \<le> 6
   \<and> (\<forall>w. Sleep w \<in> set (fst (waitForRateLimit m bopt r1 during r2)) \<longrightarrow> gt0 w)
   \<and> (enabled m \<and> gt0 (fst (tryAcquire (fst r1) (snd r1) b))
        \<and> gt0 (fst (tryAcquire (fst r2) (snd r2) (during (snd (tryAcquire (fst r1) (snd r1) b)))))
       \<longrightarrow> waitForRateLimit m (Some b) r1 during r2 =
            ([Acquire,
              Warn (fst (tryAcquire (fst r1) (snd r1) b)),
              Sleep (fst (tryAcquire (fst r1) (snd r1) b)),
              Acquire,
              Warn (fst (tryAcquire (fst r2) (snd r2) (during (snd (tryAcquire (fst r1) (snd r1) b))))),
              Sleep (fst (tryAcquire (fst r2) (snd r2) (during (snd (tryAcquire (fst r1) (snd r1) b)))))],
             Some (snd (tryAcquire (fst r2) (snd r2) (during (snd (tryAcquire (fst r1) (snd r1) b)))))))
   \<and> (enabled m \<and> gt0 (fst (tryAcquire (fst r1) (snd r1) b))
        \<and> \<not> gt0 (fst (tryAcquire (fst r2) (snd r2) (during (snd (tryAcquire (fst r1) (snd r1) b)))))
       \<longrightarrow> waitForRateLimit m (Some b) r1 during r2 =
            ([Acquire,
              Warn (fst (tryAcquire (fst r1) (snd r1) b)),
              Sleep (fst (tryAcquire (fst r1) (snd r1) b)),
              Acquire],
             Some (snd (tryAcquire (fst r2) (snd r2) (during (snd (tryAcquire (fst r1) (snd r1) b)))))))
   \<and> (enabled m \<and> \<not> gt0 (fst (tryAcquire (fst r1) (snd r1) b))
       \<longrightarrow> waitForRateLimit m (Some b) r1 during r2 =
            ([Acquire], Some (snd (tryAcquire (fst r1) (snd r1) b))))
   \<and> (\<not> enabled m \<longrightarrow> waitForRateLimit m bopt r1 during r2 = ([], bopt))
   \<and> waitForRateLimit m None r1 during r2 = ([], None)"
  by (auto simp add: waitForRateLimit_def Let_def split: option.splits prod.splits)

text \<open>
  A bucket of limit 1 and window 1000 holding a request of time 0. The first acquire at
  time 10 must wait 990. If another caller is admitted at time 1001 while this one
  sleeps, the second acquire at time 1002 must wait 999, and the call sleeps a second
  time and returns. If nobody else comes, the second acquire at time 1001 is admitted
  and the call returns after its one sleep. On a fresh bucket the first acquire is
  admitted and the call returns at once. A disabled manager does nothing.
\<close>

theorem waitForRateLimit_bounded_witness:
  "enabled (newRateLimitManager True)
   \<and> gt0 (fst (tryAcquire 10 10 ((newRateLimitBucket ''k'' 1 1000 False)\<lparr>timestamps := [0]\<rparr>)))
   \<and> waitForRateLimit (newRateLimitManager True)
        (Some ((newRateLimitBucket ''k'' 1 1000 False)\<lparr>timestamps := [0]\<rparr>))
        (10, 10) (\<lambda>b. snd (tryAcquire 1001 1001 b)) (1002, 1002)
       = ([Acquire, Warn (Num 990), Sleep (Num 990), Acquire, Warn (Num 999), Sleep (Num 999)],
          Some ((newRateLimitBucket ''k'' 1 1000 False)\<lparr>timestamps := [1001]\<rparr>))
   \<and> gt0 (Num 990) \<and> gt0 (Num 999)
   \<and> waitForRateLimit (newRateLimitManager True)
        (Some ((newRateLimitBucket ''k'' 1 1000 False)\<lparr>timestamps := [0]\<rparr>))
        (10, 10) (\<lambda>b. b) (1001, 1001)
       = ([Acquire, Warn (Num 990), Sleep (Num 990), Acquire],
          Some ((newRateLimitBucket ''k'' 1 1000 False)\<lparr>timestamps := [1001]\<rparr>))
   \<and> \<not> gt0 (fst (tryAcquire 10 10 (newRateLimitBucket ''k'' 1 1000 False)))
   \<and> waitForRateLimit (newRateLimitManager True)
        (Some (newRateLimitBucket ''k'' 1 1000 False)) (10, 10) (\<lambda>b. b) (1001, 1001)
       = ([Acquire], Some ((newRateLimitBucket ''k'' 1 1000 False)\<lparr>timestamps := [10]\<rparr>))
   \<and> \<not> enabled (newRateLimitManager False)
   \<and> waitForRateLimit (newRateLimitManager False)
        (Some (newRateLimitBucket ''k'' 1 1000 False)) (10, 10) (\<lambda>b. b) (1001, 1001)
       = ([], Some (newRateLimitBucket ''k'' 1 1000 False))"
  using waitForRateLimit_bounded [of "newRateLimitManager True"
      "Some ((newRateLimitBucket ''k'' 1 1000 False)\<lparr>timestamps := [0]\<rparr>)"
      "(10, 10)" "\<lambda>b. snd (tryAcquire 1001 1001 b)" "(1002, 1002)"
      "(newRateLimitBucket ''k'' 1 1000 False)\<lparr>timestamps := [0]\<rparr>"]
    waitForRateLimit_bounded [of "newRateLimitManager True"
      "Some ((newRateLimitBucket ''k'' 1 1000 False)\<lparr>timestamps := [0]\<rparr>)"
      "(10, 10)" "\<lambda>b. b" "(1001, 1001)"
      "(newRateLimitBucket ''k'' 1 1000 False)\<lparr>timestamps := [0]\<rparr>"]
    waitForRateLimit_bounded [of "newRateLimitManager True"
      "Some (newRateLimitBucket ''k'' 1 1000 False)"
      "(10, 10)" "\<lambda>b. b" "(1001, 1001)" "newRateLimitBucket ''k'' 1 1000 False"]
    waitForRateLimit_bounded [of "newRateLimitManager False"
      "Some (newRateLimitBucket ''k'' 1 1000 False)"
      "(10, 10)" "\<lambda>b. b" "(1001, 1001)" "newRateLimitBucket ''k'' 1 1000 False"]
  by (simp add: newRateLimitManager_def newRateLimitBucket_def tryAcquire_def prune_def)

section \<open>Embed limits\<close>

lemma foldl_add_sum_list:
  "foldl (\<lambda>t f. t + g f) a xs = a + sum_list (map g xs)" for a :: nat
  by (induction xs arbitrary: a) simp_all

lemma totalLength_embedCharacters: "totalLength b = embedCharacters b"
  by (simp add: totalLength_def embedCharacters_def optLength_def Let_def foldl_add_sum_list
      split: option.splits)

lemmas Max_defs = MaxTitleLength_def MaxDescriptionLength_def MaxFieldCount_def
  MaxFieldNameLength_def MaxFieldValueLength_def MaxFooterTextLength_def
  MaxAuthorNameLength_def MaxEmbedLength_def

lemma setTitle_range:
  "(setTitle (Some t) b = Inl RangeError) = (256 < length t)
   \<and> (length t \<le> 256 \<longrightarrow> setTitle (Some t) b = Inr (b\<lparr>b_title := Some t\<rparr>))"
  by (simp add: setTitle_def Max_defs)

lemma setDescription_range:
  "(setDescription (Some d) b = Inl RangeError) = (4096 < length d)
   \<and> (length d \<le> 4096 \<longrightarrow> setDescription (Some d) b = Inr (b\<lparr>b_description := Some d\<rparr>))"
  by (simp add: setDescription_def Max_defs)

lemma addField_range:
  "(addField name val inl b = Inl RangeError)
     = (25 \<le> length (b_fields b) \<or> 256 < length name \<or> 1024 < length val)
   \<and> (length (b_fields b) < 25 \<and> length name \<le> 256 \<and> length val \<le> 1024 \<longrightarrow>
       addField name val inl b
         = Inr (b\<lparr>b_fields := b_fields b
                  @ [\<lparr>field_name = name, field_value = val, field_inline = inl\<rparr>]\<rparr>))"
  by (simp add: addField_def newEmbedFieldBuilder_def Max_defs)

lemma setFooter_range:
  "(setFooter text iconUrl b = Inl RangeError) = (2048 < length text)
   \<and> (length text \<le> 2048 \<longrightarrow> (\<exists>b'. setFooter text iconUrl b = Inr b'
          \<and> map_option footer_text (b_footer b') = Some text))"
  by (simp add: setFooter_def newEmbedFooterBuilder_def Max_defs)

lemma setAuthor_range:
  "(setAuthor name url iconUrl b = Inl RangeError) = (256 < length name)
   \<and> (length name \<le> 256 \<longrightarrow> (\<exists>b'. setAuthor name url iconUrl b = Inr b'
          \<and> map_option author_name (b_author b') = Some name))"
  by (simp add: setAuthor_def newEmbedAuthorBuilder_def Max_defs Let_def)

lemma build_range:
  "(build b = Inl RangeError) = (6000 < embedCharacters b)
   \<and> (embedCharacters b \<le> 6000 \<longrightarrow>
        build b = Inr \<lparr>e_title = b_title b, e_description = b_description b, e_url = b_url b,
                e_timestamp = b_timestamp b, e_color = b_color b, e_footer = b_footer b,
                e_image = b_image b, e_thumbnail = b_thumbnail b, e_author = b_author b,
                e_fields = (if b_fields b = [] then None else Some (b_fields b))\<rparr>)"
  by (simp add: build_def totalLength_embedCharacters Max_defs)

text \<open>
  Claim C8. The embed builders raise a \<^verbatim>\<open>RangeError\<close> exactly when a limit is exceeded,
  and succeed otherwise: \<open>setTitle\<close> for a title of more than 256 characters,
  \<open>setDescription\<close> for a description of more than 4096, \<open>addField\<close> when 25 fields
  exist already or the field name has more than 256 characters or the field value more
  than 1024, \<open>setFooter\<close> for a footer text of more than 2048, \<open>setAuthor\<close> for an
  author name of more than 256; \<open>build\<close> raises exactly when the title, the
  description, the footer text, the author name and all field names and values have
  more than 6000 characters together, and returns the built embed otherwise.
\<close>

theorem embed_builders_raise_exactly_over_limit:
  "((setTitle (Some t) b = Inl RangeError) = (256 < length t)
    \<and> (length t \<le> 256 \<longrightarrow> setTitle (Some t) b = Inr (b\<lparr>b_title := Some t\<rparr>)))
   \<and> ((setDescription (Some d) b = Inl RangeError) = (4096 < length d)
    \<and> (length d \<le> 4096 \<longrightarrow> setDescription (Some d) b = Inr (b\<lparr>b_description := Some d\<rparr>)))
   \<and> ((addField name val inl b = Inl RangeError)
         = (25 \<le> length (b_fields b) \<or> 256 < length name \<or> 1024 < length val)
    \<and> (length (b_fields b) < 25 \<and> length name \<le> 256 \<and> length val \<le> 1024 \<longrightarrow>
       addField name val inl b
         = Inr (b\<lparr>b_fields := b_fields b
                  @ [\<lparr>field_name = name, field_value = val, field_inline = inl\<rparr>]\<rparr>)))
   \<and> ((setFooter ftext iconUrl b = Inl RangeError) = (2048 < length ftext)
    \<and> (length ftext \<le> 2048 \<longrightarrow> (\<exists>b'. setFooter ftext iconUrl b = Inr b'
          \<and> map_option footer_text (b_footer b') = Some ftext)))
   \<and> ((setAuthor aname url iconUrl b = Inl RangeError) = (256 < length aname)
    \<and> (length aname \<le> 256 \<longrightarrow> (\<exists>b'. setAuthor aname url iconUrl b = Inr b'
          \<and> map_option author_name (b_author b') = Some aname)))
   \<and> ((build b = Inl RangeError) = (6000 < embedCharacters b)
    \<and> (embedCharacters b \<le> 6000 \<longrightarrow>
        build b = Inr \<lparr>e_title = b_title b, e_description = b_description b, e_url = b_url b,
                e_timestamp = b_timestamp b, e_color = b_color b, e_footer = b_footer b,
                e_image = b_image b, e_thumbnail = b_thumbnail b, e_author = b_author b,
                e_fields = (if b_fields b = [] then None else Some (b_fields b))\<rparr>))"
  by (intro conjI setTitle_range setDescription_range addField_range setFooter_range
      setAuthor_range build_range)

text \<open>
  Within the limits every builder succeeds; a description of 4096 characters and a footer
  of 2048 are each accepted, and \<open>build\<close> then rejects the embed of 6144 characters.
\<close>

theorem embed_builders_raise_exactly_over_limit_witness:
  "setTitle (Some ''Server Channels'') newEmbedBuilder
     = Inr (newEmbedBuilder\<lparr>b_title := Some ''Server Channels''\<rparr>)
   \<and> setDescription (Some ''All channels'') newEmbedBuilder
     = Inr (newEmbedBuilder\<lparr>b_description := Some ''All channels''\<rparr>)
   \<and> addField ''Bio'' ''none'' None newEmbedBuilder
     = Inr (newEmbedBuilder\<lparr>b_fields :=
              [\<lparr>field_name = ''Bio'', field_value = ''none'', field_inline = None\<rparr>]\<rparr>)
   \<and> (\<exists>b'. setFooter ''page 1'' None newEmbedBuilder = Inr b')
   \<and> (\<exists>b'. setAuthor ''bot'' None None newEmbedBuilder = Inr b')
   \<and> embedCharacters newEmbedBuilder \<le> 6000
   \<and> build newEmbedBuilder
     = Inr \<lparr>e_title = None, e_description = None, e_url = None, e_timestamp = None,
            e_color = None, e_footer = None, e_image = None, e_thumbnail = None,
            e_author = None, e_fields = None\<rparr>
   \<and> setTitle (Some (replicate 257 CHR ''a'')) newEmbedBuilder = Inl RangeError
   \<and> 6000 < embedCharacters
        (newEmbedBuilder\<lparr>b_description := Some (replicate 4096 CHR ''a''),
           b_footer := Some \<lparr>footer_text = replicate 2048 CHR ''a'', footer_icon_url = None\<rparr>\<rparr>)
   \<and> build (newEmbedBuilder\<lparr>b_description := Some (replicate 4096 CHR ''a''),
           b_footer := Some \<lparr>footer_text = replicate 2048 CHR ''a'', footer_icon_url = None\<rparr>\<rparr>)
       = Inl RangeError"
  using embed_builders_raise_exactly_over_limit
      [where t = "''Server Channels''" and b = newEmbedBuilder and d = "''All channels''"
         and name = "''Bio''" and val = "''none''" and inl = None and ftext = "''page 1''"
         and iconUrl = None and aname = "''bot''" and url = None]
    embed_builders_raise_exactly_over_limit
      [where t = "replicate 257 CHR ''a''" and b = newEmbedBuilder and d = "''All channels''"
         and name = "''Bio''" and val = "''none''" and inl = None and ftext = "''page 1''"
         and iconUrl = None and aname = "''bot''" and url = None]
    embed_builders_raise_exactly_over_limit
      [where b = "newEmbedBuilder\<lparr>b_description := Some (replicate 4096 CHR ''a''),
           b_footer := Some \<lparr>footer_text = replicate 2048 CHR ''a'', footer_icon_url = None\<rparr>\<rparr>"
         and t = "''Server Channels''" and d = "''All channels''"
         and name = "''Bio''" and val = "''none''" and inl = None and ftext = "''page 1''"
         and iconUrl = None and aname = "''bot''" and url = None]
  by (auto simp add: newEmbedBuilder_def embedCharacters_def optLength_def)

section \<open>The sliding window of a bucket\<close>

lemma prune_loop_sorted:
  "sorted ts \<Longrightarrow> prune_loop c ts = filter (\<lambda>t. c \<le> t) ts"
proof (induction ts)
  case Nil
  then show ?case by simp
next
  case (Cons t ts)
  show ?case
  proof (cases "t < c")
    case True
    with Cons show ?thesis by simp
  next
    case False
    with Cons.prems have "\<forall>x\<in>set (t # ts). c \<le> x" by auto
    then have "filter (\<lambda>t. c \<le> t) (t # ts) = t # ts" by (simp only: filter_True)
    with False show ?thesis by simp
  qed
qed

lemma prune_loop_length: "length (prune_loop c ts) \<le> length ts"
  by (induction ts) auto

lemma prune_loop_keep: "\<not> t < c \<Longrightarrow> prune_loop c (t # ts) = t # ts"
  by simp

lemma prune_fields [simp]:
  "limit (prune n b) = limit b" "windowMs (prune n b) = windowMs b"
  "bucketKey (prune n b) = bucketKey b" "exemptFromGlobal (prune n b) = exemptFromGlobal b"
  by (simp_all add: prune_def)

lemma tryAcquire_admit:
  "int (length (prune_loop (n1 - windowMs b) (timestamps b))) < limit b \<Longrightarrow>
   tryAcquire n1 n2 b
     = (Num 0, b\<lparr>timestamps := prune_loop (n1 - windowMs b) (timestamps b) @ [n2]\<rparr>)"
  by (simp add: tryAcquire_def prune_def)

lemma tryAcquire_defer:
  "\<not> int (length (prune_loop (n1 - windowMs b) (timestamps b))) < limit b \<Longrightarrow>
   prune_loop (n1 - windowMs b) (timestamps b) = oldest # rest \<Longrightarrow>
   tryAcquire n1 n2 b
     = (Num (max 0 (oldest + windowMs b - n2)),
        b\<lparr>timestamps := prune_loop (n1 - windowMs b) (timestamps b)\<rparr>)"
  by (simp add: tryAcquire_def prune_def)

lemma acquires_append:
  "acquires (xs @ ys) b =
     (fst (acquires xs b) @ fst (acquires ys (snd (acquires xs b))),
      snd (acquires ys (snd (acquires xs b))))"
  by (induction xs arbitrary: b) (auto simp add: split_def Let_def)

lemma acquires_below_limit:
  "int (length (timestamps b) + length rs) \<le> limit b \<Longrightarrow>
   fst (acquires rs b) = replicate (length rs) (Num 0)
   \<and> length (timestamps (snd (acquires rs b))) \<le> length (timestamps b) + length rs
   \<and> limit (snd (acquires rs b)) = limit b"
proof (induction rs arbitrary: b)
  case Nil
  then show ?case by simp
next
  case (Cons r rs)
  obtain n1 n2 where r: "r = (n1, n2)" by (cases r)
  let ?kept = "prune_loop (n1 - windowMs b) (timestamps b)"
  let ?b1 = "b\<lparr>timestamps := ?kept @ [n2]\<rparr>"
  have len: "length ?kept \<le> length (timestamps b)" by (rule prune_loop_length)
  with Cons.prems have "int (length ?kept) < limit b" by simp
  then have t: "tryAcquire n1 n2 b = (Num 0, ?b1)" by (rule tryAcquire_admit)
  have "int (length (timestamps ?b1) + length rs) \<le> limit ?b1"
    using Cons.prems len by simp
  from Cons.IH [OF this] show ?case
    using t r len by (simp add: split_def)
qed

lemma acquires_no_prune:
  "timestamps b = t # ts \<Longrightarrow> \<forall>(n1, n2)\<in>set rs. n1 - windowMs b \<le> t \<Longrightarrow>
   int (length (t # ts) + length rs) \<le> limit b \<Longrightarrow>
   acquires rs b = (replicate (length rs) (Num 0), b\<lparr>timestamps := t # ts @ map snd rs\<rparr>)"
proof (induction rs arbitrary: b ts)
  case Nil
  then show ?case by simp
next
  case (Cons r rs)
  obtain n1 n2 where r: "r = (n1, n2)" by (cases r)
  from Cons.prems r have keep: "prune_loop (n1 - windowMs b) (timestamps b) = t # ts"
    by simp
  with Cons.prems have "int (length (prune_loop (n1 - windowMs b) (timestamps b))) < limit b"
    by simp
  from tryAcquire_admit [OF this, of n2] keep
  have t: "tryAcquire n1 n2 b = (Num 0, b\<lparr>timestamps := t # ts @ [n2]\<rparr>)" by simp
  let ?b1 = "b\<lparr>timestamps := t # ts @ [n2]\<rparr>"
  have "acquires rs ?b1
        = (replicate (length rs) (Num 0), ?b1\<lparr>timestamps := t # (ts @ [n2]) @ map snd rs\<rparr>)"
    using Cons.prems by (intro Cons.IH) auto
  then show ?case using t r by simp
qed

lemma tryAcquire_cases:
  "(int (length (timestamps (prune n1 b))) < limit b
      \<and> tryAcquire n1 n2 b = (Num 0, (prune n1 b)\<lparr>timestamps := timestamps (prune n1 b) @ [n2]\<rparr>))
   \<or> (\<not> int (length (timestamps (prune n1 b))) < limit b
      \<and> snd (tryAcquire n1 n2 b) = prune n1 b
      \<and> (fst (tryAcquire n1 n2 b) = Num 0 \<longrightarrow> timestamps (prune n1 b) \<noteq> []))"
  by (auto simp add: tryAcquire_def Let_def split: list.splits)

lemma tryAcquire_sorted:
  assumes s: "sorted (timestamps b)" and le: "\<forall>x\<in>set (timestamps b). x \<le> n2"
  shows "sorted (timestamps (snd (tryAcquire n1 n2 b)))"
proof -
  have k: "timestamps (prune n1 b) = filter (\<lambda>x. n1 - windowMs b \<le> x) (timestamps b)"
    using prune_loop_sorted [OF s] by (simp add: prune_def)
  have ks: "sorted (timestamps (prune n1 b))"
    unfolding k using s by (rule sorted_wrt_filter)
  have kl: "\<forall>x\<in>set (timestamps (prune n1 b)). x \<le> n2"
    unfolding k using le by simp
  from ks kl have "sorted (timestamps (prune n1 b) @ [n2])"
    by (auto simp add: sorted_append)
  with ks tryAcquire_cases [of n1 b n2] show ?thesis by auto
qed

text \<open>
  Claim C1, amended. Take a bucket with limit \<open>L\<close> and window \<open>W\<close> whose timestamps
  are in non-decreasing order, as they are recorded when the clock never steps back
  (an acquire keeps them so, and a fresh bucket has none). \<open>acquire()\<close> first removes
  every timestamp strictly older than \<open>now - W\<close> and keeps the others. If fewer than
  \<open>L\<close> remain it records the current time and returns 0; otherwise it returns
  \<open>max(0, oldest + W - now)\<close> and records nothing, which is \<open>NaN\<close> when no timestamp
  remains (then \<open>L \<le> 0\<close>). Here \<open>now1\<close> is the clock reading of the prune and \<open>now2\<close>
  the reading used to record or to compute the wait; the claim's single \<open>now\<close> is the
  case \<open>now1 = now2\<close>. Up to \<open>L\<close> consecutive acquires on a fresh bucket each return 0,
  whatever the clock reads; and for \<open>L \<ge> 1\<close>, when the first of them recorded time \<open>t\<close>
  and every later clock reading is before \<open>t + W\<close>, acquire number \<open>L + 1\<close> returns the
  positive time \<open>t + W - now\<close> that remains until the oldest entry leaves the window, and
  records nothing.
\<close>

theorem acquire_sliding_window:
  assumes "sorted (timestamps b)"
  shows "timestamps (prune now1 b) = filter (\<lambda>t. now1 - windowMs b \<le> t) (timestamps b)
   \<and> (int (length (filter (\<lambda>t. now1 - windowMs b \<le> t) (timestamps b))) < limit b \<longrightarrow>
        tryAcquire now1 now2 b
          = (Num 0, b\<lparr>timestamps := filter (\<lambda>t. now1 - windowMs b \<le> t) (timestamps b) @ [now2]\<rparr>))
   \<and> (limit b \<le> int (length (filter (\<lambda>t. now1 - windowMs b \<le> t) (timestamps b)))
        \<and> filter (\<lambda>t. now1 - windowMs b \<le> t) (timestamps b) \<noteq> [] \<longrightarrow>
        tryAcquire now1 now2 b
          = (Num (max 0 (hd (filter (\<lambda>t. now1 - windowMs b \<le> t) (timestamps b))
                           + windowMs b - now2)),
             b\<lparr>timestamps := filter (\<lambda>t. now1 - windowMs b \<le> t) (timestamps b)\<rparr>))
   \<and> (limit b \<le> int (length (filter (\<lambda>t. now1 - windowMs b \<le> t) (timestamps b)))
        \<and> filter (\<lambda>t. now1 - windowMs b \<le> t) (timestamps b) = [] \<longrightarrow>
        tryAcquire now1 now2 b = (NaN, b\<lparr>timestamps := []\<rparr>))
   \<and> ((\<forall>x\<in>set (timestamps b). x \<le> now2) \<longrightarrow>
        sorted (timestamps (snd (tryAcquire now1 now2 b))))
   \<and> sorted (timestamps (newRateLimitBucket key L W ex))
   \<and> (int (length rs) \<le> L \<longrightarrow>
        fst (acquires rs (newRateLimitBucket key L W ex)) = replicate (length rs) (Num 0))
   \<and> (0 < L \<and> int (length rs) = L - 1
        \<and> (\<forall>(n1, n2)\<in>set (rs @ [(m1, m2)]). n1 < t + W \<and> n2 < t + W) \<longrightarrow>
        acquires ((a, t) # rs @ [(m1, m2)]) (newRateLimitBucket key L W ex)
          = (replicate (nat L) (Num 0) @ [Num (t + W - m2)],
             (newRateLimitBucket key L W ex)\<lparr>timestamps := t # map snd rs\<rparr>)
        \<and> 0 < t + W - m2)"
proof -
  let ?kept = "filter (\<lambda>t. now1 - windowMs b \<le> t) (timestamps b)"
  have k: "prune_loop (now1 - windowMs b) (timestamps b) = ?kept"
    using assms by (rule prune_loop_sorted)
  have 1: "timestamps (prune now1 b) = ?kept"
    by (simp add: prune_def k)
  have 2: "int (length ?kept) < limit b \<longrightarrow>
        tryAcquire now1 now2 b = (Num 0, b\<lparr>timestamps := ?kept @ [now2]\<rparr>)"
    using tryAcquire_admit [of now1 b now2] by (simp add: k)
  have 3: "limit b \<le> int (length ?kept) \<and> ?kept \<noteq> [] \<longrightarrow>
        tryAcquire now1 now2 b
          = (Num (max 0 (hd ?kept + windowMs b - now2)), b\<lparr>timestamps := ?kept\<rparr>)"
  proof
    assume h: "limit b \<le> int (length ?kept) \<and> ?kept \<noteq> []"
    then obtain oldest rest where o: "?kept = oldest # rest"
      by (cases ?kept) auto
    from h have "\<not> int (length (prune_loop (now1 - windowMs b) (timestamps b))) < limit b"
      by (simp add: k)
    from tryAcquire_defer [OF this, of oldest rest now2] o
    show "tryAcquire now1 now2 b
          = (Num (max 0 (hd ?kept + windowMs b - now2)), b\<lparr>timestamps := ?kept\<rparr>)"
      by (simp add: k)
  qed
  have 4: "limit b \<le> int (length ?kept) \<and> ?kept = [] \<longrightarrow>
        tryAcquire now1 now2 b = (NaN, b\<lparr>timestamps := []\<rparr>)"
  proof
    assume h: "limit b \<le> int (length ?kept) \<and> ?kept = []"
    then have e0: "?kept = []" by blast
    with h have l: "limit b \<le> 0" by simp
    from e0 have e: "prune_loop (now1 - windowMs b) (timestamps b) = []"
      by (simp only: k)
    from e l show "tryAcquire now1 now2 b = (NaN, b\<lparr>timestamps := []\<rparr>)"
      by (simp add: tryAcquire_def prune_def)
  qed
  have 5: "(\<forall>x\<in>set (timestamps b). x \<le> now2) \<longrightarrow>
        sorted (timestamps (snd (tryAcquire now1 now2 b)))"
    using tryAcquire_sorted [OF assms] by blast
  let ?fresh = "newRateLimitBucket key L W ex"
  have 6: "sorted (timestamps ?fresh)"
    by (simp add: newRateLimitBucket_def)
  have 7: "int (length rs) \<le> L \<longrightarrow> fst (acquires rs ?fresh) = replicate (length rs) (Num 0)"
    using acquires_below_limit [of ?fresh rs] by (simp add: newRateLimitBucket_def)
  have 8: "0 < L \<and> int (length rs) = L - 1
        \<and> (\<forall>(n1, n2)\<in>set (rs @ [(m1, m2)]). n1 < t + W \<and> n2 < t + W) \<longrightarrow>
        acquires ((a, t) # rs @ [(m1, m2)]) ?fresh
          = (replicate (nat L) (Num 0) @ [Num (t + W - m2)], ?fresh\<lparr>timestamps := t # map snd rs\<rparr>)
        \<and> 0 < t + W - m2"
  proof
    assume h: "0 < L \<and> int (length rs) = L - 1
        \<and> (\<forall>(n1, n2)\<in>set (rs @ [(m1, m2)]). n1 < t + W \<and> n2 < t + W)"
    let ?b1 = "?fresh\<lparr>timestamps := [t]\<rparr>"
    have first: "tryAcquire a t ?fresh = (Num 0, ?b1)"
      using h tryAcquire_admit [of a ?fresh t] by (simp add: newRateLimitBucket_def)
    have mid: "acquires rs ?b1
          = (replicate (length rs) (Num 0), ?b1\<lparr>timestamps := t # [] @ map snd rs\<rparr>)"
      using h by (intro acquires_no_prune) (auto simp add: newRateLimitBucket_def)
    let ?b2 = "?fresh\<lparr>timestamps := t # map snd rs\<rparr>"
    have b2: "snd (acquires rs ?b1) = ?b2" using mid by simp
    have keep: "prune_loop (m1 - windowMs ?b2) (timestamps ?b2) = t # map snd rs"
      using h by (simp add: newRateLimitBucket_def)
    have full: "\<not> int (length (prune_loop (m1 - windowMs ?b2) (timestamps ?b2))) < limit ?b2"
      using h by (simp add: keep) (simp add: newRateLimitBucket_def)
    have pos: "0 < t + W - m2" using h by simp
    have c: "\<not> t < m1 - W" using h by simp
    have last: "tryAcquire m1 m2 ?b2 = (Num (t + W - m2), ?b2)"
      using tryAcquire_defer [OF full keep, of m2] pos c
      by (simp add: newRateLimitBucket_def)
    from h have "int (length rs) = L - 1" by blast
    then have len: "Suc (length rs) = nat L" by arith
    have "acquires ((a, t) # rs @ [(m1, m2)]) ?fresh
          = (Num 0 # replicate (length rs) (Num 0) @ [Num (t + W - m2)], ?b2)"
      using first mid last by (simp add: acquires_append)
    moreover have "Num 0 # replicate (length rs) (Num 0) = replicate (nat L) (Num 0)"
      using len by (metis replicate_Suc)
    ultimately show "acquires ((a, t) # rs @ [(m1, m2)]) ?fresh
          = (replicate (nat L) (Num 0) @ [Num (t + W - m2)], ?b2)
        \<and> 0 < t + W - m2"
      using pos by simp
  qed
  from 1 2 3 4 5 6 7 8 show ?thesis by (intro conjI)
qed

text \<open>
  As stated, for every bucket, the claim fails. When the clock steps back between two
  acquires, at 100 and then at 50, a bucket of limit 2 and window 10 holds the
  timestamps 100, 50. An acquire at 105 stops pruning at 100, so the entry 50, older
  than the cutoff 95, stays: one entry is in the window, fewer than the limit, yet the
  acquire defers with a wait of 5. And on a bucket of limit 0, the first acquire, number
  \<open>L + 1\<close>, returns \<open>NaN\<close>, not a positive wait.
\<close>

theorem stepped_back_clock_defers_within_limit:
  "snd (acquires [(100, 100), (50, 50)] (newRateLimitBucket ''k'' 2 10 False))
     = (newRateLimitBucket ''k'' 2 10 False)\<lparr>timestamps := [100, 50]\<rparr>
   \<and> filter (\<lambda>t. 105 - 10 \<le> t) [100, 50 :: int] = [100]
   \<and> int (length [100 :: int]) < 2
   \<and> tryAcquire 105 105 ((newRateLimitBucket ''k'' 2 10 False)\<lparr>timestamps := [100, 50]\<rparr>)
     = (Num 5, (newRateLimitBucket ''k'' 2 10 False)\<lparr>timestamps := [100, 50]\<rparr>)
   \<and> fst (acquires [(0, 0)] (newRateLimitBucket ''k'' 0 10 False)) = [NaN]"
  by (simp add: newRateLimitBucket_def tryAcquire_def prune_def)

theorem acquire_sliding_window_witness:
  "sorted (timestamps ((newRateLimitBucket ''k'' 2 10 False)\<lparr>timestamps := [0, 5]\<rparr>))
   \<and> timestamps (prune 12 ((newRateLimitBucket ''k'' 2 10 False)\<lparr>timestamps := [0, 5]\<rparr>)) = [5]
   \<and> tryAcquire 12 12 ((newRateLimitBucket ''k'' 2 10 False)\<lparr>timestamps := [0, 5]\<rparr>)
       = (Num 0, (newRateLimitBucket ''k'' 2 10 False)\<lparr>timestamps := [5, 12]\<rparr>)
   \<and> sorted [5, 12 :: int]
   \<and> sorted (timestamps ((newRateLimitBucket ''k'' 2 10 False)\<lparr>timestamps := [3, 5]\<rparr>))
   \<and> tryAcquire 12 12 ((newRateLimitBucket ''k'' 2 10 False)\<lparr>timestamps := [3, 5]\<rparr>)
       = (Num 1, (newRateLimitBucket ''k'' 2 10 False)\<lparr>timestamps := [3, 5]\<rparr>)
   \<and> sorted (timestamps (newRateLimitBucket ''k'' 0 10 False))
   \<and> tryAcquire 12 12 (newRateLimitBucket ''k'' 0 10 False)
       = (NaN, newRateLimitBucket ''k'' 0 10 False)
   \<and> fst (acquires [(0, 0), (1, 1)] (newRateLimitBucket ''k'' 2 10 False)) = [Num 0, Num 0]
   \<and> acquires [(0, 0), (1, 1), (2, 2)] (newRateLimitBucket ''k'' 2 10 False)
       = ([Num 0, Num 0, Num 8], (newRateLimitBucket ''k'' 2 10 False)\<lparr>timestamps := [0, 1]\<rparr>)"
  using acquire_sliding_window
      [where b = "(newRateLimitBucket ''k'' 2 10 False)\<lparr>timestamps := [0, 5]\<rparr>"
         and ?now1.0 = 12 and ?now2.0 = 12 and rs = "[(0, 0), (1, 1)]" and L = 2
         and key = "''k''" and W = 10 and ex = False and a = 0 and t = 0 and ?m1.0 = 2
         and ?m2.0 = 2]
    acquire_sliding_window
      [where b = "(newRateLimitBucket ''k'' 2 10 False)\<lparr>timestamps := [3, 5]\<rparr>"
         and ?now1.0 = 12 and ?now2.0 = 12 and rs = "[(1, 1)]" and L = 2
         and key = "''k''" and W = 10 and ex = False and a = 0 and t = 0 and ?m1.0 = 2
         and ?m2.0 = 2]
    acquire_sliding_window
      [where b = "newRateLimitBucket ''k'' 0 10 False"
         and ?now1.0 = 12 and ?now2.0 = 12 and rs = "[(1, 1)]" and L = 2
         and key = "''k''" and W = 10 and ex = False and a = 0 and t = 0 and ?m1.0 = 2
         and ?m2.0 = 2]
  by (simp add: newRateLimitBucket_def numeral_2_eq_2)

section \<open>The bucket invariant\<close>

lemma prune_invariant:
  assumes "clockOrdered t b" and "t \<le> n"
  shows "clockOrdered n (prune n b)" and "noneOlder (n - windowMs b) (prune n b)"
    and "length (timestamps (prune n b)) \<le> length (timestamps b)"
proof -
  from assms have s: "sorted (timestamps b)" by (simp add: clockOrdered_def)
  have k: "timestamps (prune n b) = filter (\<lambda>x. n - windowMs b \<le> x) (timestamps b)"
    using prune_loop_sorted [OF s] by (simp add: prune_def)
  show "clockOrdered n (prune n b)"
    using assms s by (auto simp add: clockOrdered_def k intro: sorted_wrt_filter)
  show "noneOlder (n - windowMs b) (prune n b)"
    by (simp add: noneOlder_def k)
  show "length (timestamps (prune n b)) \<le> length (timestamps b)"
    by (simp add: k)
qed

lemma prune_withinLimit: "withinLimit b \<Longrightarrow> withinLimit (prune n b)"
  using prune_loop_length [of "n - windowMs b" "timestamps b"]
  by (simp add: withinLimit_def prune_def)

lemma tryAcquire_withinLimit:
  assumes wl: "withinLimit b"
  shows "withinLimit (snd (tryAcquire n1 n2 b))"
    and "fst (tryAcquire n1 n2 b) = Num 0 \<longrightarrow>
           int (length (timestamps (snd (tryAcquire n1 n2 b)))) \<le> limit b"
proof -
  from prune_withinLimit [OF wl, of n1]
  have pl: "int (length (timestamps (prune n1 b))) \<le> max 0 (limit b)"
    by (simp add: withinLimit_def)
  consider
    (admit) "int (length (timestamps (prune n1 b))) < limit b"
      "tryAcquire n1 n2 b = (Num 0, (prune n1 b)\<lparr>timestamps := timestamps (prune n1 b) @ [n2]\<rparr>)"
  | (wait) "\<not> int (length (timestamps (prune n1 b))) < limit b"
      "snd (tryAcquire n1 n2 b) = prune n1 b"
      "fst (tryAcquire n1 n2 b) = Num 0 \<longrightarrow> timestamps (prune n1 b) \<noteq> []"
    using tryAcquire_cases [of n1 b n2] by blast
  then have "withinLimit (snd (tryAcquire n1 n2 b))
    \<and> (fst (tryAcquire n1 n2 b) = Num 0 \<longrightarrow>
           int (length (timestamps (snd (tryAcquire n1 n2 b)))) \<le> limit b)"
  proof cases
    case admit
    then show ?thesis by (simp add: withinLimit_def)
  next
    case wait
    have "withinLimit (prune n1 b)" using wl by (rule prune_withinLimit)
    moreover have "timestamps (prune n1 b) \<noteq> [] \<Longrightarrow>
        int (length (timestamps (prune n1 b))) \<le> limit b"
      using pl by (cases "timestamps (prune n1 b)") auto
    ultimately show ?thesis using wait by auto
  qed
  then show "withinLimit (snd (tryAcquire n1 n2 b))"
    and "fst (tryAcquire n1 n2 b) = Num 0 \<longrightarrow>
           int (length (timestamps (snd (tryAcquire n1 n2 b)))) \<le> limit b"
    by blast+
qed

lemma tryAcquire_clockOrdered:
  assumes co: "clockOrdered t b" and t: "t \<le> n1" and n: "n1 \<le> n2"
  shows "clockOrdered n2 (snd (tryAcquire n1 n2 b))"
    and "\<forall>x\<in>set (timestamps (snd (tryAcquire n1 n2 b))). n1 - windowMs b \<le> x \<or> x = n2"
proof -
  note p = prune_invariant [OF co t]
  from p(1) have ps: "sorted (timestamps (prune n1 b))"
    and pb: "\<forall>x\<in>set (timestamps (prune n1 b)). x \<le> n1"
    by (simp_all add: clockOrdered_def)
  from p(2) have po: "\<forall>x\<in>set (timestamps (prune n1 b)). n1 - windowMs b \<le> x"
    by (simp add: noneOlder_def)
  from pb n have pb2: "\<forall>x\<in>set (timestamps (prune n1 b)). x \<le> n2"
    by auto
  have sa: "sorted (timestamps (prune n1 b) @ [n2])"
    using ps pb2 by (auto simp add: sorted_append)
  have "clockOrdered n2 (snd (tryAcquire n1 n2 b))
    \<and> (\<forall>x\<in>set (timestamps (snd (tryAcquire n1 n2 b))). n1 - windowMs b \<le> x \<or> x = n2)"
    using tryAcquire_cases [of n1 b n2] ps pb2 po sa
    by (auto simp add: clockOrdered_def)
  then show "clockOrdered n2 (snd (tryAcquire n1 n2 b))"
    and "\<forall>x\<in>set (timestamps (snd (tryAcquire n1 n2 b))). n1 - windowMs b \<le> x \<or> x = n2"
    by blast+
qed

lemma clockOrdered_later: "clockOrdered t b \<Longrightarrow> t \<le> n \<Longrightarrow> clockOrdered n b"
  by (auto simp add: clockOrdered_def)

text \<open>
  Claim C3, amended. Every operation of a bucket, and its constructor, keeps the number
  of timestamps within the limit, whatever the clock reads; so after an acquire that
  returns 0 the number of timestamps does not exceed the limit. As long as the clock
  never steps back (\<open>t \<le> now1 \<le> now2\<close>, where \<open>t\<close> is the last reading before the
  operation and the timestamps are in recording order, none later than \<open>t\<close>), every
  operation preserves the whole invariant, ordering included, and after a prune no
  timestamp is older than \<open>now1 - windowMs\<close>; this holds after the prune inside
  \<open>acquire()\<close>, \<open>getRemaining()\<close> and \<open>getResetTime()\<close> too, where the only other entry is
  the one \<open>acquire()\<close> has just recorded.
\<close>

theorem bucket_invariant_preserved:
  assumes "withinLimit b"
  shows "withinLimit (prune now1 b)
    \<and> withinLimit (snd (tryAcquire now1 now2 b))
    \<and> (fst (tryAcquire now1 now2 b) = Num 0 \<longrightarrow>
          int (length (timestamps (snd (tryAcquire now1 now2 b)))) \<le> limit b)
    \<and> withinLimit (snd (remainingTask now1 b))
    \<and> withinLimit (snd (resetTimeTask now1 now2 b))
    \<and> withinLimit (resetTask b)
    \<and> withinLimit (newRateLimitBucket key L W ex)
    \<and> (clockOrdered t b \<and> t \<le> now1 \<and> now1 \<le> now2 \<longrightarrow>
          noneOlder (now1 - windowMs b) (prune now1 b)
        \<and> bucketInvariant now1 (prune now1 b)
        \<and> bucketInvariant now2 (snd (tryAcquire now1 now2 b))
        \<and> (\<forall>x\<in>set (timestamps (snd (tryAcquire now1 now2 b))). now1 - windowMs b \<le> x \<or> x = now2)
        \<and> bucketInvariant now1 (snd (remainingTask now1 b))
        \<and> noneOlder (now1 - windowMs b) (snd (remainingTask now1 b))
        \<and> bucketInvariant now2 (snd (resetTimeTask now1 now2 b))
        \<and> noneOlder (now1 - windowMs b) (snd (resetTimeTask now1 now2 b))
        \<and> bucketInvariant now2 (resetTask b))
    \<and> bucketInvariant t (newRateLimitBucket key L W ex)"
proof -
  have rem: "snd (remainingTask now1 b) = prune now1 b"
    by (simp add: remainingTask_def Let_def)
  have rst: "snd (resetTimeTask now1 now2 b) = prune now1 b"
    by (simp add: resetTimeTask_def Let_def split: list.splits)
  have pw: "withinLimit (prune now1 b)"
    using assms by (rule prune_withinLimit)
  note aw = tryAcquire_withinLimit [OF assms, of now1 now2]
  have rw: "withinLimit (resetTask b)"
    by (simp add: withinLimit_def resetTask_def)
  have fw: "withinLimit (newRateLimitBucket key L W ex)"
    by (simp add: withinLimit_def newRateLimitBucket_def)
  have f: "bucketInvariant t (newRateLimitBucket key L W ex)"
    by (simp add: bucketInvariant_def clockOrdered_def withinLimit_def newRateLimitBucket_def)
  have clock: "clockOrdered t b \<and> t \<le> now1 \<and> now1 \<le> now2 \<longrightarrow>
          noneOlder (now1 - windowMs b) (prune now1 b)
        \<and> bucketInvariant now1 (prune now1 b)
        \<and> bucketInvariant now2 (snd (tryAcquire now1 now2 b))
        \<and> (\<forall>x\<in>set (timestamps (snd (tryAcquire now1 now2 b))). now1 - windowMs b \<le> x \<or> x = now2)
        \<and> bucketInvariant now1 (snd (remainingTask now1 b))
        \<and> noneOlder (now1 - windowMs b) (snd (remainingTask now1 b))
        \<and> bucketInvariant now2 (snd (resetTimeTask now1 now2 b))
        \<and> noneOlder (now1 - windowMs b) (snd (resetTimeTask now1 now2 b))
        \<and> bucketInvariant now2 (resetTask b)"
  proof
    assume h: "clockOrdered t b \<and> t \<le> now1 \<and> now1 \<le> now2"
    then have co: "clockOrdered t b" and t1: "t \<le> now1" and t2: "now1 \<le> now2"
      by blast+
    note p = prune_invariant [OF co t1]
    have pi: "bucketInvariant now1 (prune now1 b)"
      using p(1) pw by (simp add: bucketInvariant_def)
    have pi2: "bucketInvariant now2 (prune now1 b)"
      using p(1) pw t2 by (auto simp add: bucketInvariant_def intro: clockOrdered_later)
    note a = tryAcquire_clockOrdered [OF co t1 t2]
    have ai: "bucketInvariant now2 (snd (tryAcquire now1 now2 b))"
      using a(1) aw(1) by (simp add: bucketInvariant_def)
    have r: "bucketInvariant now2 (resetTask b)"
      using rw by (simp add: bucketInvariant_def clockOrdered_def resetTask_def)
    show "noneOlder (now1 - windowMs b) (prune now1 b)
        \<and> bucketInvariant now1 (prune now1 b)
        \<and> bucketInvariant now2 (snd (tryAcquire now1 now2 b))
        \<and> (\<forall>x\<in>set (timestamps (snd (tryAcquire now1 now2 b))). now1 - windowMs b \<le> x \<or> x = now2)
        \<and> bucketInvariant now1 (snd (remainingTask now1 b))
        \<and> noneOlder (now1 - windowMs b) (snd (remainingTask now1 b))
        \<and> bucketInvariant now2 (snd (resetTimeTask now1 now2 b))
        \<and> noneOlder (now1 - windowMs b) (snd (resetTimeTask now1 now2 b))
        \<and> bucketInvariant now2 (resetTask b)"
      using p(2) pi ai a(2) r by (simp only: rem rst pi2 simp_thms)
  qed
  show ?thesis
    using pw aw rw fw clock f by (simp only: rem rst simp_thms)
qed

text \<open>
  As stated, after any prune, the claim fails. When the clock steps back between two
  acquires, at 100 and then at 50, a bucket of limit 2 and window 10 holds the
  timestamps 100, 50; a prune at 105 stops at 100 and leaves the entry 50, which is
  older than the cutoff 95.
\<close>

theorem stepped_back_clock_old_entry_survives_prune:
  "snd (acquires [(100, 100), (50, 50)] (newRateLimitBucket ''k'' 2 10 False))
     = (newRateLimitBucket ''k'' 2 10 False)\<lparr>timestamps := [100, 50]\<rparr>
   \<and> timestamps (prune 105 ((newRateLimitBucket ''k'' 2 10 False)\<lparr>timestamps := [100, 50]\<rparr>))
     = [100, 50]
   \<and> (50 :: int) < 105 - 10
   \<and> \<not> noneOlder (105 - 10)
        (prune 105 ((newRateLimitBucket ''k'' 2 10 False)\<lparr>timestamps := [100, 50]\<rparr>))"
  by (simp add: newRateLimitBucket_def tryAcquire_def prune_def noneOlder_def)

theorem bucket_invariant_preserved_witness:
  "withinLimit ((newRateLimitBucket ''k'' 2 10 False)\<lparr>timestamps := [0, 5]\<rparr>)
   \<and> clockOrdered 5 ((newRateLimitBucket ''k'' 2 10 False)\<lparr>timestamps := [0, 5]\<rparr>)
   \<and> (5::int) \<le> 12 \<and> (12::int) \<le> 13
   \<and> timestamps (prune 12 ((newRateLimitBucket ''k'' 2 10 False)\<lparr>timestamps := [0, 5]\<rparr>)) = [5]
   \<and> noneOlder 2 (prune 12 ((newRateLimitBucket ''k'' 2 10 False)\<lparr>timestamps := [0, 5]\<rparr>))
   \<and> tryAcquire 12 13 ((newRateLimitBucket ''k'' 2 10 False)\<lparr>timestamps := [0, 5]\<rparr>)
       = (Num 0, (newRateLimitBucket ''k'' 2 10 False)\<lparr>timestamps := [5, 13]\<rparr>)
   \<and> bucketInvariant 13 ((newRateLimitBucket ''k'' 2 10 False)\<lparr>timestamps := [5, 13]\<rparr>)
   \<and> int (length [5::int, 13]) \<le> 2"
  using bucket_invariant_preserved
      [where t = 5 and b = "(newRateLimitBucket ''k'' 2 10 False)\<lparr>timestamps := [0, 5]\<rparr>"
         and ?now1.0 = 12 and ?now2.0 = 13 and key = "''k''" and L = 2 and W = 10
         and ex = False]
  by (simp add: newRateLimitBucket_def bucketInvariant_def clockOrdered_def withinLimit_def
      noneOlder_def tryAcquire_def prune_def)

section \<open>Callers racing on one bucket\<close>

lemma prune_loop_all_kept: "\<forall>x\<in>set ts. \<not> x < c \<Longrightarrow> prune_loop c ts = ts"
  by (cases ts) auto

lemma tryAcquire_in_window:
  assumes ts: "\<forall>x\<in>set (timestamps b). t0 \<le> x"
    and n1: "n1 < t0 + windowMs b" and n2: "t0 \<le> n2" "n2 < t0 + windowMs b"
  shows "int (length (timestamps b)) < limit b \<Longrightarrow>
           tryAcquire n1 n2 b = (Num 0, b\<lparr>timestamps := timestamps b @ [n2]\<rparr>)"
    and "\<not> int (length (timestamps b)) < limit b \<Longrightarrow>
           snd (tryAcquire n1 n2 b) = b \<and> fst (tryAcquire n1 n2 b) \<noteq> Num 0"
proof -
  have "\<forall>x\<in>set (timestamps b). \<not> x < n1 - windowMs b"
    using ts n1 by fastforce
  then have k: "prune_loop (n1 - windowMs b) (timestamps b) = timestamps b"
    by (rule prune_loop_all_kept)
  then have p: "prune n1 b = b" by (simp add: prune_def)
  show "int (length (timestamps b)) < limit b \<Longrightarrow>
           tryAcquire n1 n2 b = (Num 0, b\<lparr>timestamps := timestamps b @ [n2]\<rparr>)"
    by (simp add: tryAcquire_def p)
  show "\<not> int (length (timestamps b)) < limit b \<Longrightarrow>
           snd (tryAcquire n1 n2 b) = b \<and> fst (tryAcquire n1 n2 b) \<noteq> Num 0"
    using ts n2 by (cases "timestamps b") (auto simp add: tryAcquire_def p)
qed

lemma windowInv_acquire: "windowInv t0 L W q \<Longrightarrow> windowInv t0 L W (acquire c q)"
  by (simp add: windowInv_def acquire_def enqueue_def)

lemma windowInv_turn:
  assumes inv: "windowInv t0 L W q"
    and r: "t0 \<le> n1" "n1 < t0 + W" "t0 \<le> n2" "n2 < t0 + W"
  shows "windowInv t0 L W (turn n1 n2 q)"
proof (cases "pending q")
  case Nil
  then show ?thesis using inv by (simp add: turn_def)
next
  case (Cons ct rest)
  obtain c t where ct: "ct = (c, t)" by (cases ct)
  let ?b = "bucketState q"
  from inv Cons ct have t: "t = TryAcquireTask" by (auto simp add: windowInv_def)
  from inv have lim: "limit ?b = L" and win: "windowMs ?b = W"
    and ts: "\<forall>x\<in>set (timestamps ?b). t0 \<le> x"
    and len: "length (timestamps ?b) = min (length (resolved q)) (nat L)"
    and fz: "filter isZero (resolved q) = take (nat L) (resolved q)"
    and pend: "\<forall>ct\<in>set (pending q). snd ct = TryAcquireTask"
    by (simp_all add: windowInv_def)
  note ta = tryAcquire_in_window [of ?b t0 n1 n2, OF ts]
  show ?thesis
  proof (cases "int (length (timestamps ?b)) < limit ?b")
    case True
    with ta(1) r win have a: "tryAcquire n1 n2 ?b = (Num 0, ?b\<lparr>timestamps := timestamps ?b @ [n2]\<rparr>)"
      by simp
    from True lim len have small: "length (resolved q) < nat L" by auto
    have tq: "turn n1 n2 q = q\<lparr>bucketState := ?b\<lparr>timestamps := timestamps ?b @ [n2]\<rparr>,
         pending := rest, resolved := resolved q @ [(c, Returned (Num 0))]\<rparr>"
      using Cons ct t a by (simp add: turn_def)
    show ?thesis
      unfolding tq windowInv_def
      using lim win ts len fz pend small r Cons
      by (auto simp add: isZero_def)
  next
    case False
    with ta(2) r win have a: "snd (tryAcquire n1 n2 ?b) = ?b" "fst (tryAcquire n1 n2 ?b) \<noteq> Num 0"
      by simp_all
    from False lim len have big: "nat L \<le> length (resolved q)" by auto
    have tq: "turn n1 n2 q = q\<lparr>bucketState := ?b,
         pending := rest, resolved := resolved q @ [(c, Returned (fst (tryAcquire n1 n2 ?b)))]\<rparr>"
      using Cons ct t a by (simp add: turn_def split_def)
    show ?thesis
      unfolding tq windowInv_def
      using lim win ts len fz pend big a Cons
      by (auto simp add: isZero_def)
  qed
qed


lemma windowInv_schedule:
  "windowInv t0 L W q \<Longrightarrow> \<forall>r\<in>set (readings es). t0 \<le> r \<and> r < t0 + W \<Longrightarrow>
   windowInv t0 L W (schedule es q)"
proof (induction es arbitrary: q)
  case Nil
  then show ?case by simp
next
  case (Cons e es)
  show ?case
  proof (cases e)
    case (CallAcquire c)
    with Cons show ?thesis by (simp add: windowInv_acquire)
  next
    case (Turn n1 n2)
    with Cons.prems have "windowInv t0 L W (turn n1 n2 q)"
      by (intro windowInv_turn) auto
    with Cons Turn show ?thesis by simp
  qed
qed

lemma step_callers:
  "map fst (resolved (step e q)) @ map fst (pending (step e q))
     = map fst (resolved q) @ map fst (pending q) @ callers [e]"
  by (cases e) (auto simp add: acquire_def enqueue_def turn_def split_def Let_def split: list.splits)

lemma callers_Cons: "callers (e # es) = callers [e] @ callers es"
  by (cases e) simp_all

lemma schedule_callers:
  "map fst (resolved (schedule es q)) @ map fst (pending (schedule es q))
     = map fst (resolved q) @ map fst (pending q) @ callers es"
proof (induction es arbitrary: q)
  case Nil
  then show ?case by simp
next
  case (Cons e es)
  have "map fst (resolved (schedule (e # es) q)) @ map fst (pending (schedule (e # es) q))
        = (map fst (resolved (step e q)) @ map fst (pending (step e q))) @ callers es"
    using Cons.IH [of "step e q"] by simp
  also have "\<dots> = map fst (resolved q) @ map fst (pending q) @ callers [e] @ callers es"
    by (simp add: step_callers)
  finally show ?case by (simp add: callers_Cons [of e es])
qed

lemma windowInv_new:
  "windowInv t0 L W (newQueuedBucket (newRateLimitBucket key L W ex))"
  by (simp add: windowInv_def newQueuedBucket_def newRateLimitBucket_def)

lemma filter_not_take:
  "filter P xs = take n xs \<Longrightarrow> filter (\<lambda>x. \<not> P x) xs = drop n xs"
proof (induction xs arbitrary: n)
  case Nil
  then show ?case by simp
next
  case (Cons x xs)
  show ?case
  proof (cases n)
    case 0
    with Cons.prems have "filter P (x # xs) = []" by simp
    then have "\<forall>y\<in>set (x # xs). \<not> P y" by (simp only: filter_empty_conv) 
    then have "filter (\<lambda>x. \<not> P x) (x # xs) = x # xs" by (simp only: filter_True)
    with 0 show ?thesis by simp
  next
    case (Suc m)
    show ?thesis
    proof (cases "P x")
      case True
      with Cons.prems Suc have "filter P xs = take m xs" by simp
      from Cons.IH [OF this] True Suc show ?thesis by simp
    next
      case False
      with Cons.prems Suc have "filter P xs = x # take m xs" by simp
      then have "x \<in> set (filter P xs)" by simp
      with False show ?thesis by simp
    qed
  qed
qed

text \<open>
  Claim C2, amended. \<open>M\<close> callers race \<open>acquire()\<close> on a fresh bucket with limit \<open>L\<close>:
  the schedule is any interleaving of their calls with the turns of the event loop, each
  turn running the closure at the head of the bucket's queue to completion; every clock
  reading lies in one window \<open>[t0, t0 + W)\<close>, and in the end every call has been served.
  Then the callers admitted (zero wait) are the first \<open>L\<close> in call order, all \<open>M\<close> of
  them when \<open>M < L\<close>, and the others are deferred: exactly \<open>min L M\<close> are admitted and
  \<open>M - L\<close> deferred, whatever the schedule.
\<close>

theorem concurrent_callers_admitted:
  assumes window: "\<forall>r\<in>set (readings es). t0 \<le> r \<and> r < t0 + W"
    and served: "pending (schedule es (newQueuedBucket (newRateLimitBucket key L W ex))) = []"
  shows "admitted (schedule es (newQueuedBucket (newRateLimitBucket key L W ex)))
           = take (nat L) (callers es)
    \<and> deferred (schedule es (newQueuedBucket (newRateLimitBucket key L W ex)))
           = drop (nat L) (callers es)
    \<and> length (admitted (schedule es (newQueuedBucket (newRateLimitBucket key L W ex))))
           = min (nat L) (length (callers es))
    \<and> length (deferred (schedule es (newQueuedBucket (newRateLimitBucket key L W ex))))
           = length (callers es) - nat L"
proof -
  let ?init = "newQueuedBucket (newRateLimitBucket key L W ex) :: 'a QueuedBucket"
  let ?q = "schedule es ?init"
  have inv: "windowInv t0 L W ?q"
    using windowInv_new window by (rule windowInv_schedule)
  then have fz: "filter isZero (resolved ?q) = take (nat L) (resolved ?q)"
    by (simp add: windowInv_def)
  have c: "map fst (resolved ?q) = callers es"
    using schedule_callers [of es ?init] served by (simp add: newQueuedBucket_def)
  have "admitted ?q = map fst (take (nat L) (resolved ?q))"
    using fz by (simp add: admitted_def isZero_def [abs_def])
  also have "\<dots> = take (nat L) (map fst (resolved ?q))"
    by (simp only: take_map)
  finally have a: "admitted ?q = take (nat L) (callers es)"
    by (simp only: c)
  have "filter (\<lambda>x. \<not> isZero x) (resolved ?q) = drop (nat L) (resolved ?q)"
    using fz by (rule filter_not_take)
  then have "deferred ?q = map fst (drop (nat L) (resolved ?q))"
    by (simp add: deferred_def isZero_def [abs_def])
  also have "\<dots> = drop (nat L) (map fst (resolved ?q))"
    by (simp only: drop_map)
  finally have d: "deferred ?q = drop (nat L) (callers es)"
    by (simp only: c)
  show ?thesis
    unfolding a d by (simp add: min.commute)
qed

text \<open>
  As stated, with exactly \<open>L\<close> admitted for every number of callers, the claim fails
  when fewer than \<open>L\<close> callers race: one caller on a bucket of limit 2 is admitted, and
  it is the only one.
\<close>

theorem fewer_callers_than_limit:
  "admitted (schedule [CallAcquire (1::nat), Turn 0 0]
      (newQueuedBucket (newRateLimitBucket ''k'' 2 1000 False))) = [1]
   \<and> deferred (schedule [CallAcquire (1::nat), Turn 0 0]
      (newQueuedBucket (newRateLimitBucket ''k'' 2 1000 False))) = []
   \<and> length (admitted (schedule [CallAcquire (1::nat), Turn 0 0]
      (newQueuedBucket (newRateLimitBucket ''k'' 2 1000 False)))) \<noteq> nat 2"
  by (simp add: admitted_def deferred_def newQueuedBucket_def newRateLimitBucket_def
      acquire_def enqueue_def turn_def tryAcquire_def prune_def)

text \<open>
  Three callers on a bucket of limit 2 and window 10; the third calls after the first
  was served. The first two are admitted, the third is deferred.
\<close>

theorem concurrent_callers_admitted_witness:
  "readings [CallAcquire (1::nat), CallAcquire 2, Turn 0 0, CallAcquire 3, Turn 3 4, Turn 7 9]
     = [0, 0, 3, 4, 7, 9]
   \<and> pending (schedule [CallAcquire (1::nat), CallAcquire 2, Turn 0 0, CallAcquire 3, Turn 3 4, Turn 7 9]
        (newQueuedBucket (newRateLimitBucket ''k'' 2 10 False))) = []
   \<and> admitted (schedule [CallAcquire (1::nat), CallAcquire 2, Turn 0 0, CallAcquire 3, Turn 3 4, Turn 7 9]
        (newQueuedBucket (newRateLimitBucket ''k'' 2 10 False))) = [1, 2]
   \<and> deferred (schedule [CallAcquire (1::nat), CallAcquire 2, Turn 0 0, CallAcquire 3, Turn 3 4, Turn 7 9]
        (newQueuedBucket (newRateLimitBucket ''k'' 2 10 False))) = [3]"
  using concurrent_callers_admitted
     [where es = "[CallAcquire (1::nat), CallAcquire 2, Turn 0 0, CallAcquire 3, Turn 3 4, Turn 7 9]"
        and ?t0.0 = 0 and W = 10 and L = 2 and key = "''k''" and ex = False]
  by (simp add: admitted_def deferred_def newQueuedBucket_def newRateLimitBucket_def acquire_def
      enqueue_def turn_def tryAcquire_def prune_def)

section \<open>Resolving the bucket key\<close>

lemma getSubstitution_plain:
  "CHR ''$'' \<notin> set r \<Longrightarrow> getSubstitution m pre post r = r"
  by (induction m pre post r rule: getSubstitution.induct) auto

lemma indexOf_Some:
  "indexOf s p = Some k \<Longrightarrow> s = take k s @ p @ drop (k + length p) s"
proof (induction s arbitrary: k)
  case Nil
  then show ?case by (simp split: if_splits)
next
  case (Cons c s)
  show ?case
  proof (cases "startsWith (c # s) p")
    case True
    with Cons.prems have "k = 0" by simp
    moreover from True have "take (length p) (c # s) = p" by (simp add: startsWith_def)
    then have "c # s = p @ drop (length p) (c # s)" by (metis append_take_drop_id)
    ultimately show ?thesis by simp
  next
    case False
    with Cons.prems obtain k' where k: "k = Suc k'" and i: "indexOf s p = Some k'"
      by auto
    from Cons.IH [OF i] show ?thesis unfolding k by simp
  qed
qed

lemma replace_plain:
  "CHR ''$'' \<notin> set r \<Longrightarrow> replace key p r = spec_replaceFirst key p r"
  by (simp add: replace_def spec_replaceFirst_def getSubstitution_plain Let_def split: option.splits)

lemma includes_Nil: "includes_str [] q = (q = [])"
  by (simp add: includes_str_def)

lemma includes_Cons: "includes_str (c # s) q = (prefix q (c # s) \<or> includes_str s q)"
  by (simp add: includes_str_def startsWith_prefix)

lemma includes_skip:
  "CHR '':'' \<notin> set M \<Longrightarrow>
   includes_str (M @ s) (CHR '':'' # q') = includes_str s (CHR '':'' # q')"
  by (induction M) (auto simp add: includes_Cons)

lemma prefix_cross:
  assumes w: "w \<noteq> []" "CHR '':'' \<notin> set w" and x: "x \<noteq> []"
    and p: "prefix (CHR '':'' # CHR '':'' # w) (x @ CHR '':'' # CHR '':'' # R)"
  shows "prefix (CHR '':'' # CHR '':'' # w) x"
proof (rule ccontr)
  assume n: "\<not> prefix (CHR '':'' # CHR '':'' # w) x"
  with p obtain us where q: "CHR '':'' # CHR '':'' # w = x @ us"
    and u: "prefix us (CHR '':'' # CHR '':'' # R)"
    by (auto simp add: prefix_append)
  from n q have "us \<noteq> []" by auto
  with u obtain us' where us: "us = CHR '':'' # us'" by (cases us) auto
  from x obtain a x' where xa: "x = a # x'" by (cases x) auto
  show False
  proof (cases x')
    case Nil
    with q xa us have "w = us'" by simp
    with u us w show False by (cases w) auto
  next
    case (Cons b x'')
    with q xa us have "w = x'' @ CHR '':'' # us'" by simp
    with w show False by simp
  qed
qed

lemma includes_around:
  assumes w: "w \<noteq> []" "CHR '':'' \<notin> set w"
    and M: "M \<noteq> []" "CHR '':'' \<notin> set M"
    and np: "\<not> prefix w (M @ post)"
  shows "includes_str (pre @ CHR '':'' # CHR '':'' # M @ post) (CHR '':'' # CHR '':'' # w)
     = (includes_str pre (CHR '':'' # CHR '':'' # w) \<or> includes_str post (CHR '':'' # CHR '':'' # w))"
proof (induction pre)
  case Nil
  from M obtain m M' where m: "M = m # M'" "m \<noteq> CHR '':''" by (cases M) auto
  have "includes_str (M @ post) (CHR '':'' # CHR '':'' # w)
        = includes_str post (CHR '':'' # CHR '':'' # w)"
    using M(2) by (rule includes_skip)
  then show ?case
    using np m by (simp add: includes_Cons includes_Nil)
next
  case (Cons c pre)
  have "prefix (CHR '':'' # CHR '':'' # w) ((c # pre) @ CHR '':'' # CHR '':'' # M @ post)
        = prefix (CHR '':'' # CHR '':'' # w) (c # pre)"
  proof
    assume a: "prefix (CHR '':'' # CHR '':'' # w) ((c # pre) @ CHR '':'' # CHR '':'' # M @ post)"
    show "prefix (CHR '':'' # CHR '':'' # w) (c # pre)"
      by (rule prefix_cross [OF w _ a]) simp
  next
    assume "prefix (CHR '':'' # CHR '':'' # w) (c # pre)"
    then show "prefix (CHR '':'' # CHR '':'' # w) ((c # pre) @ CHR '':'' # CHR '':'' # M @ post)"
      by (rule prefix_prefix)
  qed
  then show ?case
    using Cons.IH by (auto simp add: includes_Cons)
qed



lemma substitute_spec:
  assumes "includes_str key ph = includes_str template ph" and "dollarFree param"
  shows "substitute ph param key = spec_substitute template ph param key"
proof (cases param)
  case None
  then show ?thesis by (simp add: spec_substitute_def)
next
  case (Some v)
  with assms(2) have "CHR ''$'' \<notin> set (''::'' @ v)" by (simp add: dollarFree_def)
  then have "replace key ph (''::'' @ v) = spec_replaceFirst key ph (''::'' @ v)"
    by (rule replace_plain)
  with Some assms(1) show ?thesis
    by (simp add: substitute_def spec_substitute_def)
qed

lemma digit_not_special: "isDigit c \<Longrightarrow> c \<noteq> CHR ''$'' \<and> c \<noteq> CHR '':''"
  by (auto simp add: isDigit_def)

lemma digits_plain:
  assumes "\<forall>c\<in>set d. isDigit c"
  shows "CHR ''$'' \<notin> set d" and "CHR '':'' \<notin> set d"
  using assms digit_not_special by blast+

lemma numericId_dollarFree: "numericId param \<Longrightarrow> dollarFree param"
  by (cases param) (simp_all add: numericId_def dollarFree_def digits_plain)

lemma not_prefix_digits:
  assumes "w \<noteq> []" and "\<not> isDigit (hd w)" and "d \<noteq> []" and "\<forall>c\<in>set d. isDigit c"
  shows "\<not> prefix w (d @ post)"
proof -
  from assms(1) obtain x w' where w: "w = x # w'" by (cases w) auto
  from assms(3) obtain y d' where d: "d = y # d'" by (cases d) auto
  from assms(2) w have "\<not> isDigit x" by simp
  moreover from assms(4) d have "isDigit y" by simp
  ultimately have "x \<noteq> y" by blast
  then show ?thesis by (simp add: w d)
qed

lemma not_prefix_incomparable:
  assumes "\<not> prefix wq wp" and "\<not> prefix wp wq"
  shows "\<not> prefix wq (wp @ post)"
proof
  assume "prefix wq (wp @ post)"
  then have "prefix wq wp \<or> (\<exists>us. wq = wp @ us \<and> prefix us post)"
    by (simp only: prefix_append)
  with assms(1) obtain us where "wq = wp @ us" by blast
  then have "prefix wp wq" by (rule prefixI)
  with assms(2) show False ..
qed

lemma substitute_keeps_placeholder:
  assumes wp: "placeholderWord wp" and wq: "placeholderWord wq"
    and inc: "\<not> prefix wq wp" "\<not> prefix wp wq"
    and sf: "numericId param"
  shows "includes_str (substitute (CHR '':'' # CHR '':'' # wp) param key) (CHR '':'' # CHR '':'' # wq)
           = includes_str key (CHR '':'' # CHR '':'' # wq)"
proof (cases "truthy param \<and> includes_str key (CHR '':'' # CHR '':'' # wp)")
  case False
  then have "substitute (CHR '':'' # CHR '':'' # wp) param key = key"
    unfolding substitute_def by (rule if_not_P)
  then show ?thesis by (rule arg_cong)
next
  case True
  then obtain d where param: "param = Some d" and d: "d \<noteq> []"
    by (cases param) auto
  from sf param have dig: "\<forall>c\<in>set d. isDigit c" by (simp add: numericId_def)
  from True have "indexOf key (CHR '':'' # CHR '':'' # wp) \<noteq> None"
    by (simp add: includes_str_def)
  then obtain k where k: "indexOf key (CHR '':'' # CHR '':'' # wp) = Some k"
    by blast
  define pre where "pre = take k key"
  define post where "post = drop (k + length (CHR '':'' # CHR '':'' # wp)) key"
  from indexOf_Some [OF k] have key: "key = pre @ CHR '':'' # CHR '':'' # wp @ post"
    by (simp add: pre_def post_def)
  have nodollar: "CHR ''$'' \<notin> set (''::'' @ d)"
    using digits_plain(1) [OF dig] by simp
  have "replace key (CHR '':'' # CHR '':'' # wp) (''::'' @ d)
        = spec_replaceFirst key (CHR '':'' # CHR '':'' # wp) (''::'' @ d)"
    using nodollar by (rule replace_plain)
  also have "\<dots> = pre @ CHR '':'' # CHR '':'' # d @ post"
    by (simp add: spec_replaceFirst_def k pre_def post_def)
  finally have r: "replace key (CHR '':'' # CHR '':'' # wp) (''::'' @ d)
        = pre @ CHR '':'' # CHR '':'' # d @ post" .
  have "substitute (CHR '':'' # CHR '':'' # wp) param key
        = replace key (CHR '':'' # CHR '':'' # wp) (idTemplate param)"
    unfolding substitute_def using True by (rule if_P)
  then have sub: "substitute (CHR '':'' # CHR '':'' # wp) param key
        = pre @ CHR '':'' # CHR '':'' # d @ post"
    using r by (simp add: param)
  from wq have w: "wq \<noteq> []" "CHR '':'' \<notin> set wq"
    by (auto simp add: placeholderWord_def)
  from wq w(1) have wnd: "\<not> isDigit (hd wq)"
    by (simp add: placeholderWord_def)
  from wp have p: "wp \<noteq> []" "CHR '':'' \<notin> set wp"
    by (auto simp add: placeholderWord_def)
  note dc = digits_plain(2) [OF dig]
  note n1 = not_prefix_digits [OF w(1) wnd d dig, of post]
  from includes_around [OF w d dc n1, of pre]
  have new: "includes_str (pre @ CHR '':'' # CHR '':'' # d @ post) (CHR '':'' # CHR '':'' # wq)
     = (includes_str pre (CHR '':'' # CHR '':'' # wq) \<or> includes_str post (CHR '':'' # CHR '':'' # wq))" .
  note n2 = not_prefix_incomparable [OF inc, of post]
  from includes_around [OF w p n2, of pre]
  have old: "includes_str (pre @ CHR '':'' # CHR '':'' # wp @ post) (CHR '':'' # CHR '':'' # wq)
     = (includes_str pre (CHR '':'' # CHR '':'' # wq) \<or> includes_str post (CHR '':'' # CHR '':'' # wq))" .
  have "includes_str (substitute (CHR '':'' # CHR '':'' # wp) param key) (CHR '':'' # CHR '':'' # wq)
      = (includes_str pre (CHR '':'' # CHR '':'' # wq) \<or> includes_str post (CHR '':'' # CHR '':'' # wq))"
    by (simp only: sub new)
  also have "\<dots> = includes_str (pre @ CHR '':'' # CHR '':'' # wp @ post) (CHR '':'' # CHR '':'' # wq)"
    by (simp only: old)
  also have "\<dots> = includes_str key (CHR '':'' # CHR '':'' # wq)"
    using key by simp
  finally show ?thesis .
qed


lemma keep_all:
  assumes "numericId param"
  shows "includes_str (substitute ''::channel_id'' param key) ''::guild_id'' = includes_str key ''::guild_id''"
    and "includes_str (substitute ''::channel_id'' param key) ''::user_id'' = includes_str key ''::user_id''"
    and "includes_str (substitute ''::channel_id'' param key) ''::target_id'' = includes_str key ''::target_id''"
    and "includes_str (substitute ''::channel_id'' param key) ''::webhook_id'' = includes_str key ''::webhook_id''"
    and "includes_str (substitute ''::channel_id'' param key) ''::invite_code'' = includes_str key ''::invite_code''"
    and "includes_str (substitute ''::guild_id'' param key) ''::user_id'' = includes_str key ''::user_id''"
    and "includes_str (substitute ''::guild_id'' param key) ''::target_id'' = includes_str key ''::target_id''"
    and "includes_str (substitute ''::guild_id'' param key) ''::webhook_id'' = includes_str key ''::webhook_id''"
    and "includes_str (substitute ''::guild_id'' param key) ''::invite_code'' = includes_str key ''::invite_code''"
    and "includes_str (substitute ''::user_id'' param key) ''::target_id'' = includes_str key ''::target_id''"
    and "includes_str (substitute ''::user_id'' param key) ''::webhook_id'' = includes_str key ''::webhook_id''"
    and "includes_str (substitute ''::user_id'' param key) ''::invite_code'' = includes_str key ''::invite_code''"
    and "includes_str (substitute ''::target_id'' param key) ''::webhook_id'' = includes_str key ''::webhook_id''"
    and "includes_str (substitute ''::target_id'' param key) ''::invite_code'' = includes_str key ''::invite_code''"
    and "includes_str (substitute ''::webhook_id'' param key) ''::invite_code'' = includes_str key ''::invite_code''"
  by (rule substitute_keeps_placeholder [OF _ _ _ _ assms];
      simp add: placeholderWord_def isDigit_def)+

lemma getBucket_key:
  "enabled m \<Longrightarrow>
   \<exists>b. fst (getBucket m config params) = Some b
     \<and> buckets (snd (getBucket m config params)) (resolveKey config params) = Some b
     \<and> (buckets m (resolveKey config params) = None \<longrightarrow>
          bucketKey b = resolveKey config params \<and> limit b = limit_cfg config
          \<and> windowMs b = windowMs_cfg config \<and> timestamps b = [])"
  by (cases "buckets m (resolveKey config params)")
     (simp_all add: getBucket_def Let_def newRateLimitBucket_def)

lemma resolveKey_example:
  "resolveKey \<lparr>bucket = ''channels::channel_id::messages::send'', limit_cfg = l,
                windowMs_cfg = w, exemptFromGlobal_cfg = e\<rparr>
      (noParams\<lparr>channelId := Some ''123''\<rparr>) = ''channels::123::messages::send''"
  by (simp add: resolveKey_substitute noParams_def substitute_def includes_str_def
      startsWith_def replace_def)

text \<open>
  Claim C5, amended. For every route config, and for caller-supplied params whose
  channel, guild, user, target and webhook IDs are strings of decimal digits and whose
  invite code has no dollar sign, \<open>getBucket\<close> resolves the bucket key by replacing the
  first occurrence of each placeholder \<^verbatim>\<open>::channel_id\<close>, \<^verbatim>\<open>::guild_id\<close>,
  \<^verbatim>\<open>::user_id\<close>, \<^verbatim>\<open>::target_id\<close>, \<^verbatim>\<open>::webhook_id\<close>, \<^verbatim>\<open>::invite_code\<close> with
  \<^verbatim>\<open>::\<close> and the supplied ID exactly when the placeholder occurs in the template and
  the ID is supplied and not empty; the other placeholders stay as they are. An enabled
  manager returns the bucket stored under that key, creating it with that key when
  there is none. Resolving \<^verbatim>\<open>channels::channel_id::messages::send\<close> with channel ID
  \<^verbatim>\<open>123\<close> gives \<^verbatim>\<open>channels::123::messages::send\<close>, and with no channel ID the
  template itself.
\<close>

theorem resolveKey_substitutes_placeholders:
  assumes a1: "numericId (channelId params)" and a2: "numericId (guildId params)"
    and a3: "numericId (userId params)" and a4: "numericId (targetId params)"
    and a5: "numericId (webhookId params)" and a6: "dollarFree (inviteCode params)"
  shows "resolveKey config params = spec_resolveKey (bucket config) params
    \<and> (enabled m \<longrightarrow>
          (\<exists>b. fst (getBucket m config params) = Some b
             \<and> buckets (snd (getBucket m config params)) (resolveKey config params) = Some b
             \<and> (buckets m (resolveKey config params) = None \<longrightarrow>
                  bucketKey b = resolveKey config params \<and> limit b = limit_cfg config
                  \<and> windowMs b = windowMs_cfg config \<and> timestamps b = [])))
    \<and> resolveKey \<lparr>bucket = ''channels::channel_id::messages::send'', limit_cfg = l,
                windowMs_cfg = w, exemptFromGlobal_cfg = e\<rparr>
          (noParams\<lparr>channelId := Some ''123''\<rparr>) = ''channels::123::messages::send''
    \<and> resolveKey \<lparr>bucket = ''channels::channel_id::messages::send'', limit_cfg = l,
                windowMs_cfg = w, exemptFromGlobal_cfg = e\<rparr> noParams
          = ''channels::channel_id::messages::send''"
proof -
  let ?T = "bucket config"
  define k1 where "k1 = substitute ''::channel_id'' (channelId params) ?T"
  define k2 where "k2 = substitute ''::guild_id'' (guildId params) k1"
  define k3 where "k3 = substitute ''::user_id'' (userId params) k2"
  define k4 where "k4 = substitute ''::target_id'' (targetId params) k3"
  define k5 where "k5 = substitute ''::webhook_id'' (webhookId params) k4"
  define k6 where "k6 = substitute ''::invite_code'' (inviteCode params) k5"
  have r: "resolveKey config params = k6"
    by (simp only: resolveKey_substitute k1_def k2_def k3_def k4_def k5_def k6_def)
  have i2: "includes_str k1 ''::guild_id'' = includes_str ?T ''::guild_id''"
    by (simp only: k1_def keep_all(1) [OF a1])
  have i3: "includes_str k2 ''::user_id'' = includes_str ?T ''::user_id''"
    by (simp only: k2_def k1_def keep_all(6) [OF a2] keep_all(2) [OF a1])
  have i4: "includes_str k3 ''::target_id'' = includes_str ?T ''::target_id''"
    by (simp only: k3_def k2_def k1_def keep_all(10) [OF a3] keep_all(7) [OF a2]
        keep_all(3) [OF a1])
  have i5: "includes_str k4 ''::webhook_id'' = includes_str ?T ''::webhook_id''"
    by (simp only: k4_def k3_def k2_def k1_def keep_all(13) [OF a4] keep_all(11) [OF a3]
        keep_all(8) [OF a2] keep_all(4) [OF a1])
  have i6: "includes_str k5 ''::invite_code'' = includes_str ?T ''::invite_code''"
    by (simp only: k5_def k4_def k3_def k2_def k1_def keep_all(15) [OF a5]
        keep_all(14) [OF a4] keep_all(12) [OF a3] keep_all(9) [OF a2] keep_all(5) [OF a1])
  have s1: "k1 = spec_substitute ?T ''::channel_id'' (channelId params) ?T"
    unfolding k1_def by (rule substitute_spec [OF refl numericId_dollarFree [OF a1]])
  have s2: "k2 = spec_substitute ?T ''::guild_id'' (guildId params) k1"
    unfolding k2_def by (rule substitute_spec [OF i2 numericId_dollarFree [OF a2]])
  have s3: "k3 = spec_substitute ?T ''::user_id'' (userId params) k2"
    unfolding k3_def by (rule substitute_spec [OF i3 numericId_dollarFree [OF a3]])
  have s4: "k4 = spec_substitute ?T ''::target_id'' (targetId params) k3"
    unfolding k4_def by (rule substitute_spec [OF i4 numericId_dollarFree [OF a4]])
  have s5: "k5 = spec_substitute ?T ''::webhook_id'' (webhookId params) k4"
    unfolding k5_def by (rule substitute_spec [OF i5 numericId_dollarFree [OF a5]])
  have s6: "k6 = spec_substitute ?T ''::invite_code'' (inviteCode params) k5"
    unfolding k6_def by (rule substitute_spec [OF i6 a6])
  have "k6 = spec_resolveKey ?T params"
    unfolding spec_resolveKey_def
    by (subst s6, subst s5, subst s4, subst s3, subst s2, subst s1) (rule refl)
  with r have main: "resolveKey config params = spec_resolveKey ?T params" by simp
  have gb: "enabled m \<longrightarrow>
          (\<exists>b. fst (getBucket m config params) = Some b
             \<and> buckets (snd (getBucket m config params)) (resolveKey config params) = Some b
             \<and> (buckets m (resolveKey config params) = None \<longrightarrow>
                  bucketKey b = resolveKey config params \<and> limit b = limit_cfg config
                  \<and> windowMs b = windowMs_cfg config \<and> timestamps b = []))"
    using getBucket_key [of m config params] by blast
  have ex2: "resolveKey \<lparr>bucket = ''channels::channel_id::messages::send'', limit_cfg = l,
                windowMs_cfg = w, exemptFromGlobal_cfg = e\<rparr> noParams
          = ''channels::channel_id::messages::send''"
    by (simp add: resolveKey_substitute noParams_def)
  from main gb resolveKey_example [of l w e] ex2 show ?thesis by (intro conjI)
qed

text \<open>
  As stated, for all params, the claim fails. The six replacements run one after the
  other, each on the key the earlier ones left, so an ID that spells a later placeholder
  is replaced in turn: with channel ID \<^verbatim>\<open>guild_id\<close> and guild ID \<^verbatim>\<open>9\<close> the guild ID
  is substituted although \<^verbatim>\<open>::guild_id\<close> does not occur in the template.
\<close>

theorem id_naming_a_later_placeholder:
  "\<not> includes_str ''channels::channel_id::messages::send'' ''::guild_id''
   \<and> resolveKey \<lparr>bucket = ''channels::channel_id::messages::send'', limit_cfg = 5,
                  windowMs_cfg = 5000, exemptFromGlobal_cfg = Some False\<rparr>
        (noParams\<lparr>channelId := Some ''guild_id'', guildId := Some ''9''\<rparr>)
       = ''channels::9::messages::send''
   \<and> spec_resolveKey ''channels::channel_id::messages::send''
        (noParams\<lparr>channelId := Some ''guild_id'', guildId := Some ''9''\<rparr>)
       = ''channels::guild_id::messages::send''"
  by (simp add: resolveKey_substitute spec_resolveKey_def noParams_def substitute_def
      spec_substitute_def spec_replaceFirst_def includes_str_def startsWith_def replace_def)

theorem resolveKey_substitutes_placeholders_witness:
  "numericId (Some ''123'') \<and> numericId None \<and> dollarFree None
   \<and> resolveKey \<lparr>bucket = ''channels::channel_id::messages::send'', limit_cfg = 5,
                  windowMs_cfg = 5000, exemptFromGlobal_cfg = Some False\<rparr>
        (noParams\<lparr>channelId := Some ''123''\<rparr>)
       = ''channels::123::messages::send''
   \<and> spec_resolveKey ''channels::channel_id::messages::send''
        (noParams\<lparr>channelId := Some ''123''\<rparr>)
       = ''channels::123::messages::send''
   \<and> enabled (newRateLimitManager True)
   \<and> fst (getBucket (newRateLimitManager True)
        \<lparr>bucket = ''channels::channel_id::messages::send'', limit_cfg = 5,
          windowMs_cfg = 5000, exemptFromGlobal_cfg = Some False\<rparr>
        (noParams\<lparr>channelId := Some ''123''\<rparr>))
       = Some (newRateLimitBucket ''channels::123::messages::send'' 5 5000 False)"
proof -
  let ?p = "noParams\<lparr>channelId := Some ''123''\<rparr>"
  let ?cfg = "\<lparr>bucket = ''channels::channel_id::messages::send'', limit_cfg = 5,
          windowMs_cfg = 5000, exemptFromGlobal_cfg = Some False\<rparr>"
  have h: "numericId (channelId ?p)" "numericId (guildId ?p)" "numericId (userId ?p)"
    "numericId (targetId ?p)" "numericId (webhookId ?p)" "dollarFree (inviteCode ?p)"
    by (simp_all add: noParams_def numericId_def dollarFree_def isDigit_def)
  note t = resolveKey_substitutes_placeholders
     [OF h, where config = ?cfg and m = "newRateLimitManager True" and l = 5 and w = 5000
        and e = "Some False"]
  from t have e1: "resolveKey ?cfg ?p = spec_resolveKey (bucket ?cfg) ?p"
    by (rule conjunct1)
  from t have e3: "resolveKey ?cfg ?p = ''channels::123::messages::send''"
    by blast
  from e1 e3 have e4: "spec_resolveKey ''channels::channel_id::messages::send'' ?p
      = ''channels::123::messages::send''"
    by simp
  have g: "fst (getBucket (newRateLimitManager True) ?cfg ?p)
      = Some (newRateLimitBucket (resolveKey ?cfg ?p) 5 5000 False)"
    by (simp add: getBucket_def newRateLimitManager_def Let_def)
  have s: "numericId (Some ''123'')" "numericId None" "dollarFree None"
    "enabled (newRateLimitManager True)"
    by (simp_all add: numericId_def dollarFree_def isDigit_def newRateLimitManager_def)
  show ?thesis
    using s e3 e4 g by (simp only: simp_thms)
qed

end
